theory Spec2Isabelle
  imports Main "HOL-Library.Word"
begin

section \<open>The ledger indexer: data model\<close>

text \<open>
  The development embeds \<^verbatim>\<open>backend/cmd/indexer/main.go\<close>: the function
  \<^verbatim>\<open>processLedger\<close> and the start-up, gap detection, backfill and live loop of
  \<^verbatim>\<open>main\<close>. The packages \<^verbatim>\<open>store\<close>, \<^verbatim>\<open>parser\<close> and \<^verbatim>\<open>xrpl\<close> are external
  collaborators whose code is not part of the embedded file: their operations are
  parameters of the model (the record \<open>env\<close>, the answers of the start-up calls and the
  oracles of the backfill client).

  Go's \<^verbatim>\<open>uint64\<close> and \<^verbatim>\<open>int64\<close> are both 64-bit words. The conversions
  \<^verbatim>\<open>uint64(x)\<close> and \<^verbatim>\<open>int64(x)\<close> between them keep the bits, so they are the identity
  on \<open>64 word\<close>; addition and subtraction wrap around, and the comparisons of
  \<^verbatim>\<open>main\<close> are all made on \<^verbatim>\<open>uint64\<close> values, that is, unsigned.
\<close>

type_synonym u64 = "64 word"
type_synonym i64 = "64 word"

text \<open>A Go \<^verbatim>\<open>error\<close> value that is not nil, by its message.\<close>

type_synonym err = string

text \<open>\<^verbatim>\<open>store.LedgerCheckpoint\<close>, with the fields that \<^verbatim>\<open>processLedger\<close> fills in.\<close>

record checkpoint =
  cp_LedgerIndex :: i64
  cp_LedgerHash :: string
  cp_CloseTime :: i64
  cp_CloseTimeHuman :: i64
  cp_TransactionCount :: int
  cp_ProcessingDurationMs :: int

text \<open>
  \<^verbatim>\<open>xrpl.Transaction\<close>: the two fields that \<^verbatim>\<open>processLedger\<close> reads. The other
  fields of the Go struct are the extension part of the record; they reach the parsers
  through the JSON round trip only.
\<close>

record transaction =
  Hash :: string
  TransactionType :: string

text \<open>\<^verbatim>\<open>xrpl.LedgerResponse\<close>.\<close>

record 'x ledger =
  LedgerIndex :: u64
  LedgerHash :: string
  LedgerTime :: i64
  TxnCount :: int
  Transactions :: "'x transaction_scheme list"

subsection \<open>Observable effects\<close>

text \<open>
  A line written to the log is the format string of the \<^verbatim>\<open>log.Printf\<close> or
  \<^verbatim>\<open>logVerbose\<close> call that writes it (without the pictographs some of them start
  with) and the values printed. Where the code prints fields of a pool or an offer, the
  argument is the pool or the offer.
\<close>

datatype ('p, 'o) logarg =
    ArgWord u64
  | ArgInt int
  | ArgNat nat
  | ArgStr string
  | ArgPool 'p
  | ArgOffer 'o

text \<open>
  The trace of a run: the log lines and the calls made to the store, the parsers, the
  JSON codec and the ledger sources, in the order the code makes them.
\<close>

datatype ('x, 'm, 'p, 'o) event =
    Log string "('p, 'o) logarg list"
  | CallGetCheckpoint i64
  | CallMarshal "'x transaction_scheme"
  | CallUnmarshal string
  | CallAMMParse 'm u64 string
  | CallUpsertAMMPool 'p
  | CallOrderbookParse 'm u64 string
  | CallUpsertOffer 'o
  | CallParseOfferCancel 'm
  | CallCancelOffer string int i64
  | CallSaveCheckpoint checkpoint
  | CallNewStore
  | CallGetLastCheckpoint
  | CallConnect
  | CallGetServerInfo
  | CallSubscribe
  | SpawnBackfill u64 u64 u64
  | CallBackfillConnect
  | CallFetchLedgerSync u64
  | Sleep nat

section \<open>Gap detection at start-up\<close>

text \<open>
  Lines 124 to 208 of \<^verbatim>\<open>main\<close>. \<open>gap\<close>, \<open>missingCount\<close> and \<open>backfillStart\<close> are the
  local variables of that block, as functions of the configured \<^verbatim>\<open>start-ledger\<close>, the
  last checkpoint and the validated ledger reported by the node.
\<close>

definition smallGapThreshold :: u64 where
  "smallGapThreshold = 1000"

definition gap :: "u64 \<Rightarrow> checkpoint \<Rightarrow> u64" where
  "gap currentLedger cp = currentLedger - cp_LedgerIndex cp"

definition missingCount :: "u64 \<Rightarrow> checkpoint \<Rightarrow> u64" where
  "missingCount currentLedger cp = gap currentLedger cp - 1"

definition backfillStart :: "u64 \<Rightarrow> checkpoint \<Rightarrow> u64" where
  "backfillStart startLedger cp =
     (if cp_LedgerIndex cp + 1 < startLedger then startLedger else cp_LedgerIndex cp + 1)"

text \<open>
  What the block decides. \<open>BackfillLaunched b c m\<close> is the \<^verbatim>\<open>go func()\<close> statement: the
  task captures \<open>backfillStart = b\<close>, \<open>currentLedger = c\<close> and \<open>missingCount = m\<close>.
\<close>

datatype gap_outcome =
    NoCheckpointFound
  | UpToDate
  | LargeGapSkipped
  | BeforeCutoff
  | BackfillLaunched u64 u64 u64

definition check_gap ::
  "u64 \<Rightarrow> checkpoint option \<Rightarrow> u64 \<Rightarrow> gap_outcome \<times> ('x, 'm, 'p, 'o) event list" where
  "check_gap startLedger checkpoint currentLedger =
     (case checkpoint of
        None \<Rightarrow>
          (NoCheckpointFound,
           [Log ''No checkpoint found - starting from current ledger %d''
              [ArgWord currentLedger]])
      | Some cp \<Rightarrow>
          (let found = [Log ''Found checkpoint at ledger %d (hash: %s)''
                          [ArgWord (cp_LedgerIndex cp), ArgStr (cp_LedgerHash cp)]] in
           if 1 < gap currentLedger cp then
             (let cutoff = (if cp_LedgerIndex cp + 1 < startLedger
                            then [Log ''Respecting START_LEDGER cutoff: %d''
                                    [ArgWord startLedger]]
                            else []) in
              if smallGapThreshold < missingCount currentLedger cp then
                (LargeGapSkipped,
                 found @ cutoff @
                 [Log ''Large gap detected: %d ledgers''
                    [ArgWord (missingCount currentLedger cp)],
                  Log ''Skipping backfill - resuming from current ledger'' [],
                  Log ''Partner orders can be verified on-demand in M3 Partner API'' []])
              else if currentLedger \<le> backfillStart startLedger cp then
                (BeforeCutoff,
                 found @ cutoff @
                 [Log ''All missing ledgers before START_LEDGER cutoff - resuming from current''
                    []])
              else
                (BackfillLaunched (backfillStart startLedger cp) currentLedger
                   (missingCount currentLedger cp),
                 found @ cutoff @
                 [Log ''Small gap detected: %d ledgers (%d to %d)''
                    [ArgWord (missingCount currentLedger cp),
                     ArgWord (backfillStart startLedger cp), ArgWord (currentLedger - 1)],
                  Log ''Starting background backfill...'' [],
                  SpawnBackfill (backfillStart startLedger cp) currentLedger
                    (missingCount currentLedger cp)]))
           else (UpToDate, found @ [Log ''No gap detected - indexer is up to date'' []])))"

text \<open>Whether a backfill task is launched.\<close>

fun launches_backfill :: "gap_outcome \<Rightarrow> bool" where
  "launches_backfill (BackfillLaunched b c m) = True"
| "launches_backfill _ = False"

text \<open>
  The decision alone. The events of \<open>check_gap\<close> hold no value of the four type
  parameters of a trace, so the decision is read at one instance of them.
\<close>

definition gap_decision :: "u64 \<Rightarrow> checkpoint option \<Rightarrow> u64 \<Rightarrow> gap_outcome" where
  "gap_decision startLedger checkpoint currentLedger =
     fst (check_gap startLedger checkpoint currentLedger
            :: gap_outcome \<times> (unit, unit, unit, unit) event list)"

section \<open>Processing one ledger\<close>

text \<open>
  The collaborators of \<^verbatim>\<open>processLedger\<close>. The store is a state \<open>'s\<close> and its methods
  are functions on it: a read returns the Go pair (pointer, error), a write returns the
  new state and the error (\<open>None\<close> is \<^verbatim>\<open>nil\<close>). The parsers are functions of the
  decoded transaction, the ledger index and the ledger hash, returning the Go pair
  (record, error). \<open>jsonMarshal\<close> and \<open>jsonUnmarshal\<close> are the two steps of the JSON
  round trip that turns a transaction into the map the parsers read; \<open>offerStatus\<close>
  reads \<^verbatim>\<open>offer.Status\<close>; \<open>verbose\<close> is the \<^verbatim>\<open>-v\<close> flag.
\<close>

record ('s, 'x, 'm, 'p, 'o) env =
  GetCheckpoint :: "'s \<Rightarrow> i64 \<Rightarrow> checkpoint option \<times> err option"
  UpsertAMMPool :: "'s \<Rightarrow> 'p \<Rightarrow> 's \<times> err option"
  UpsertOffer :: "'s \<Rightarrow> 'o \<Rightarrow> 's \<times> err option"
  CancelOffer :: "'s \<Rightarrow> string \<Rightarrow> int \<Rightarrow> i64 \<Rightarrow> 's \<times> err option"
  SaveCheckpoint :: "'s \<Rightarrow> checkpoint \<Rightarrow> 's \<times> err option"
  jsonMarshal :: "'x transaction_scheme \<Rightarrow> err + string"
  jsonUnmarshal :: "string \<Rightarrow> err + 'm"
  ammParseTransaction :: "'m \<Rightarrow> u64 \<Rightarrow> string \<Rightarrow> 'p option \<times> err option"
  orderbookParseTransaction :: "'m \<Rightarrow> u64 \<Rightarrow> string \<Rightarrow> 'o option \<times> err option"
  ParseOfferCancel :: "'m \<Rightarrow> string \<times> int \<times> err option"
  offerStatus :: "'o \<Rightarrow> string"
  verbose :: bool

definition logVerbose ::
  "bool \<Rightarrow> string \<Rightarrow> ('p, 'o) logarg list \<Rightarrow> ('x, 'm, 'p, 'o) event list" where
  "logVerbose v fmt args = (if v then [Log fmt args] else [])"

text \<open>Lines 282 to 294: the AMM parser and the pool upsert.\<close>

definition amm_step ::
  "('s, 'x, 'm, 'p, 'o) env \<Rightarrow> 's \<Rightarrow> 'x ledger \<Rightarrow> 'x transaction_scheme \<Rightarrow> 'm
     \<Rightarrow> 's \<times> ('x, 'm, 'p, 'o) event list" where
  "amm_step e db ledger tx txMap =
     (case ammParseTransaction e txMap (LedgerIndex ledger) (LedgerHash ledger) of
        (pool, Some er) \<Rightarrow>
          (db, [CallAMMParse txMap (LedgerIndex ledger) (LedgerHash ledger),
                Log ''AMM parser error on tx %s: %v'' [ArgStr (Hash tx), ArgStr er]])
      | (Some pool, None) \<Rightarrow>
          (case UpsertAMMPool e db pool of
             (db', Some er) \<Rightarrow>
               (db', [CallAMMParse txMap (LedgerIndex ledger) (LedgerHash ledger),
                      CallUpsertAMMPool pool,
                      Log ''Failed to upsert AMM pool: %v'' [ArgStr er]])
           | (db', None) \<Rightarrow>
               (db', [CallAMMParse txMap (LedgerIndex ledger) (LedgerHash ledger),
                      CallUpsertAMMPool pool,
                      Log ''  AMM pool updated: %s/%s'' [ArgPool pool]]))
      | (None, None) \<Rightarrow>
          (db, CallAMMParse txMap (LedgerIndex ledger) (LedgerHash ledger) #
               logVerbose (verbose e) ''  Skipped (not AMM transaction)'' []))"

text \<open>Lines 296 to 312: the order-book parser and the offer upsert.\<close>

definition orderbook_step ::
  "('s, 'x, 'm, 'p, 'o) env \<Rightarrow> 's \<Rightarrow> 'x ledger \<Rightarrow> 'x transaction_scheme \<Rightarrow> 'm
     \<Rightarrow> 's \<times> ('x, 'm, 'p, 'o) event list" where
  "orderbook_step e db ledger tx txMap =
     (case orderbookParseTransaction e txMap (LedgerIndex ledger) (LedgerHash ledger) of
        (offer, Some er) \<Rightarrow>
          (db, [CallOrderbookParse txMap (LedgerIndex ledger) (LedgerHash ledger),
                Log ''Orderbook parser error on tx %s: %v'' [ArgStr (Hash tx), ArgStr er]])
      | (Some offer, None) \<Rightarrow>
          (case UpsertOffer e db offer of
             (db', Some er) \<Rightarrow>
               (db', [CallOrderbookParse txMap (LedgerIndex ledger) (LedgerHash ledger),
                      CallUpsertOffer offer,
                      Log ''Failed to upsert offer: %v'' [ArgStr er]])
           | (db', None) \<Rightarrow>
               (db', [CallOrderbookParse txMap (LedgerIndex ledger) (LedgerHash ledger),
                      CallUpsertOffer offer] @
                     (if offerStatus e offer = ''invalid_parse''
                      then logVerbose (verbose e) ''  Invalid offer stored: %v'' [ArgOffer offer]
                      else [Log ''  Offer created: %s/%s @ %s'' [ArgOffer offer]])))
      | (None, None) \<Rightarrow>
          (db, CallOrderbookParse txMap (LedgerIndex ledger) (LedgerHash ledger) #
               logVerbose (verbose e) ''  Skipped (not orderbook transaction)'' []))"

text \<open>Lines 314 to 326: the cancellation of an offer.\<close>

definition cancel_step ::
  "('s, 'x, 'm, 'p, 'o) env \<Rightarrow> 's \<Rightarrow> 'x ledger \<Rightarrow> 'x transaction_scheme \<Rightarrow> 'm
     \<Rightarrow> 's \<times> ('x, 'm, 'p, 'o) event list" where
  "cancel_step e db ledger tx txMap =
     (if TransactionType tx = ''OfferCancel'' then
        (case ParseOfferCancel e txMap of
           (account, seq, None) \<Rightarrow>
             (case CancelOffer e db account seq (LedgerIndex ledger) of
                (db', Some er) \<Rightarrow>
                  (db', [CallParseOfferCancel txMap,
                         CallCancelOffer account seq (LedgerIndex ledger),
                         Log ''Failed to cancel offer: %v'' [ArgStr er]])
              | (db', None) \<Rightarrow>
                  (db', [CallParseOfferCancel txMap,
                         CallCancelOffer account seq (LedgerIndex ledger),
                         Log ''  Offer cancelled: account=%s seq=%d''
                           [ArgStr account, ArgInt seq]]))
         | (account, seq, Some er) \<Rightarrow>
             (db, CallParseOfferCancel txMap #
                  logVerbose (verbose e) ''  OfferCancel parse error: %v'' [ArgStr er]))
      else (db, []))"

text \<open>
  The body of the loop over the transactions (lines 267 to 326). The two \<^verbatim>\<open>continue\<close>
  statements are the two \<open>Inl\<close> branches.
\<close>

definition process_tx ::
  "('s, 'x, 'm, 'p, 'o) env \<Rightarrow> 's \<Rightarrow> 'x ledger \<Rightarrow> 'x transaction_scheme
     \<Rightarrow> 's \<times> ('x, 'm, 'p, 'o) event list" where
  "process_tx e db ledger tx =
     (let pre = logVerbose (verbose e) ''Processing tx %s (type: %s)''
                  [ArgStr (Hash tx), ArgStr (TransactionType tx)] @ [CallMarshal tx] in
      case jsonMarshal e tx of
        Inl er \<Rightarrow> (db, pre @ [Log ''Failed to marshal transaction: %v'' [ArgStr er]])
      | Inr txBytes \<Rightarrow>
          (case jsonUnmarshal e txBytes of
             Inl er \<Rightarrow>
               (db, pre @ [CallUnmarshal txBytes,
                             Log ''Failed to unmarshal transaction: %v'' [ArgStr er]])
           | Inr txMap \<Rightarrow>
               (let (db1, ev1) = amm_step e db ledger tx txMap;
                    (db2, ev2) = orderbook_step e db1 ledger tx txMap;
                    (db3, ev3) = cancel_step e db2 ledger tx txMap
                in (db3, pre @ [CallUnmarshal txBytes] @ ev1 @ ev2 @ ev3))))"

fun process_txs ::
  "('s, 'x, 'm, 'p, 'o) env \<Rightarrow> 's \<Rightarrow> 'x ledger \<Rightarrow> 'x transaction_scheme list
     \<Rightarrow> 's \<times> ('x, 'm, 'p, 'o) event list" where
  "process_txs e db ledger [] = (db, [])"
| "process_txs e db ledger (tx # txs) =
     (let (db1, ev1) = process_tx e db ledger tx;
          (db2, ev2) = process_txs e db1 ledger txs
      in (db2, ev1 @ ev2))"

text \<open>Lines 251 to 260: the look-up of the checkpoint of the preceding ledger.\<close>

definition continuity_check ::
  "('s, 'x, 'm, 'p, 'o) env \<Rightarrow> 's \<Rightarrow> 'x ledger \<Rightarrow> ('x, 'm, 'p, 'o) event list" where
  "continuity_check e db ledger =
     (if 1 < LedgerIndex ledger then
        CallGetCheckpoint (LedgerIndex ledger - 1) #
        (case GetCheckpoint e db (LedgerIndex ledger - 1) of
           (Some prevCheckpoint, None) \<Rightarrow>
             logVerbose (verbose e) ''Verified sequential ledger: %d follows %d''
               [ArgWord (LedgerIndex ledger), ArgWord (cp_LedgerIndex prevCheckpoint)]
         | _ \<Rightarrow> [])
      else [])"

text \<open>
  Lines 331 to 338. \<open>duration\<close> is \<^verbatim>\<open>time.Since(start)\<close> in milliseconds, a reading
  of the clock and so an input of the model.
\<close>

definition new_checkpoint :: "'x ledger \<Rightarrow> int \<Rightarrow> checkpoint" where
  "new_checkpoint ledger duration =
     \<lparr>cp_LedgerIndex = LedgerIndex ledger,
      cp_LedgerHash = LedgerHash ledger,
      cp_CloseTime = LedgerTime ledger,
      cp_CloseTimeHuman = LedgerTime ledger + 946684800,
      cp_TransactionCount = TxnCount ledger,
      cp_ProcessingDurationMs = duration\<rparr>"

text \<open>
  \<^verbatim>\<open>processLedger\<close> from line 251 on: what happens to a ledger that the duplicate
  guard lets through. The result is the store, the error returned and the trace.
\<close>

definition process_body ::
  "('s, 'x, 'm, 'p, 'o) env \<Rightarrow> 's \<Rightarrow> 'x ledger \<Rightarrow> int
     \<Rightarrow> 's \<times> err option \<times> ('x, 'm, 'p, 'o) event list" where
  "process_body e db ledger duration =
     (let head = continuity_check e db ledger @
                 [Log ''Processing ledger %d (hash: %s, txns: %d)''
                    [ArgWord (LedgerIndex ledger), ArgStr (LedgerHash ledger),
                     ArgInt (TxnCount ledger)]];
          (db1, evs) = process_txs e db ledger (Transactions ledger);
          checkpoint = new_checkpoint ledger duration
      in case SaveCheckpoint e db1 checkpoint of
           (db2, Some er) \<Rightarrow> (db2, Some er, head @ evs @ [CallSaveCheckpoint checkpoint])
         | (db2, None) \<Rightarrow>
             (db2, None,
              head @ evs @
              [CallSaveCheckpoint checkpoint,
               Log ''Ledger %d indexed in %v'' [ArgWord (LedgerIndex ledger), ArgInt duration]]))"

text \<open>\<^verbatim>\<open>processLedger\<close> (lines 235 to 346), with the duplicate guard of lines 244 to 249.\<close>

definition processLedger ::
  "('s, 'x, 'm, 'p, 'o) env \<Rightarrow> 's \<Rightarrow> 'x ledger \<Rightarrow> int
     \<Rightarrow> 's \<times> err option \<times> ('x, 'm, 'p, 'o) event list" where
  "processLedger e db ledger duration =
     (case GetCheckpoint e db (LedgerIndex ledger) of
        (Some existingCheckpoint, None) \<Rightarrow>
          (db, None,
           CallGetCheckpoint (LedgerIndex ledger) #
           logVerbose (verbose e) ''Skipping already processed ledger %d''
             [ArgWord (LedgerIndex ledger)])
      | _ \<Rightarrow>
          (let (db', r, evs) = process_body e db ledger duration
           in (db', r, CallGetCheckpoint (LedgerIndex ledger) # evs)))"

section \<open>The backfill task\<close>

text \<open>
  The client of the backfill task (\<^verbatim>\<open>xrpl.NewClientWithBuffer\<close>) is a pair of
  oracles: \<open>bfConnect\<close> is what its \<^verbatim>\<open>Connect\<close> returns, and \<open>FetchLedgerSync c i k\<close>
  is what the call \<^verbatim>\<open>FetchLedgerSync(i)\<close> returns at the iteration \<open>retry = k\<close> of the
  retry loop. The task makes each of these calls at most once, so a function of \<open>i\<close> and
  \<open>k\<close> leaves the client free to answer each call as it likes. A call that returns a nil
  error returns a ledger. \<open>bfDuration c i\<close> is the clock reading \<^verbatim>\<open>time.Since(start)\<close>
  of \<^verbatim>\<open>processLedger\<close> for the ledger fetched at index \<open>i\<close>.
\<close>

record 'x backfill_client =
  bfConnect :: "err option"
  FetchLedgerSync :: "u64 \<Rightarrow> nat \<Rightarrow> err + 'x ledger"
  bfDuration :: "u64 \<Rightarrow> int"

text \<open>
  The retry loop of lines 169 to 176, entered at \<open>retry\<close>. The Go loop tests
  \<^verbatim>\<open>retry < 3\<close> before each attempt; the test holds at \<open>retry = 0\<close>, so the function
  makes the attempt first and tests before the next one. The result is the pair
  (ledger, err) the loop leaves behind, as a sum.
\<close>

function fetch_retry ::
  "'x backfill_client \<Rightarrow> u64 \<Rightarrow> nat \<Rightarrow> (err + 'x ledger) \<times> ('x, 'm, 'p, 'o) event list" where
  "fetch_retry c i retry =
     (case FetchLedgerSync c i retry of
        Inr ledger \<Rightarrow> (Inr ledger, [CallFetchLedgerSync i])
      | Inl er \<Rightarrow>
          (let evs = [CallFetchLedgerSync i,
                      Log ''Backfill retry %d/3 for ledger %d: %v''
                        [ArgNat (retry + 1), ArgWord i, ArgStr er],
                      Sleep (retry + 1)] in
           if retry + 1 < 3 then
             (let (r, evs') = fetch_retry c i (retry + 1) in (r, evs @ evs'))
           else (Inl er, evs)))"
  by pat_completeness auto
termination
  by (relation "measure (\<lambda>(c, i, retry). 3 - retry)") auto

declare fetch_retry.simps [simp del]

text \<open>
  One iteration of the loop of lines 166 to 197, for the index \<open>i\<close>. \<open>BfStop\<close> is the
  \<^verbatim>\<open>return\<close> of line 180; \<open>BfNext n k\<close> goes on with \<open>backfillCount = n\<close> and
  \<open>backfillErrors = k\<close>. The progress line leaves out the percentage and the estimated
  time, which are floating-point values computed from the clock.
\<close>

datatype bf_iter = BfStop | BfNext int int

definition backfill_iteration ::
  "('s, 'x, 'm, 'p, 'o) env \<Rightarrow> 'x backfill_client \<Rightarrow> u64 \<Rightarrow> 's \<Rightarrow> u64 \<Rightarrow> int \<Rightarrow> int
     \<Rightarrow> 's \<times> bf_iter \<times> ('x, 'm, 'p, 'o) event list" where
  "backfill_iteration e c missing db i backfillCount backfillErrors =
     (case fetch_retry c i 0 of
        (Inl er, fevs) \<Rightarrow>
          (db, BfStop,
           fevs @ [Log ''Failed to backfill ledger %d after 3 retries - STOPPING'' [ArgWord i]])
      | (Inr ledger, fevs) \<Rightarrow>
          (case processLedger e db ledger (bfDuration c i) of
             (db', r, pevs) \<Rightarrow>
               (let n = (if r = None then backfillCount + 1 else backfillCount);
                    k = (if r = None then backfillErrors else backfillErrors + 1);
                    errlog = (case r of
                                None \<Rightarrow> []
                              | Some er \<Rightarrow>
                                  [Log ''Error processing backfill ledger %d: %v''
                                     [ArgWord i, ArgStr er]]);
                    progress = (if n mod 100 = 0
                                then [Log ''Backfill: %d/%d (%.1f%%) - ETA: %v''
                                        [ArgInt n, ArgWord missing]]
                                else [])
                in (db', BfNext n k, fevs @ pevs @ errlog @ progress))))"

text \<open>How the task ends.\<close>

datatype bf_result = BfConnectFailed | BfAborted u64 | BfComplete int int

text \<open>
  The loop \<^verbatim>\<open>for i := backfillStart; i < currentLedger; i++\<close> of the task, run on the
  store without the live loop in between.
\<close>

function backfill_loop ::
  "('s, 'x, 'm, 'p, 'o) env \<Rightarrow> 'x backfill_client \<Rightarrow> u64 \<Rightarrow> u64 \<Rightarrow> 's \<Rightarrow> u64 \<Rightarrow> int \<Rightarrow> int
     \<Rightarrow> 's \<times> bf_result \<times> ('x, 'm, 'p, 'o) event list" where
  "backfill_loop e c currentLedger missing db i backfillCount backfillErrors =
     (if i < currentLedger then
        (case backfill_iteration e c missing db i backfillCount backfillErrors of
           (db', BfStop, evs) \<Rightarrow> (db', BfAborted i, evs)
         | (db', BfNext n k, evs) \<Rightarrow>
             (case backfill_loop e c currentLedger missing db' (i + 1) n k of
                (db'', r, evs') \<Rightarrow> (db'', r, evs @ evs')))
      else
        (db, BfComplete backfillCount backfillErrors,
         [Log ''Backfill complete: %d ledgers in %v (errors: %d)''
            [ArgInt backfillCount, ArgInt backfillErrors]]))"
  by pat_completeness auto
termination
  by (relation "measure (\<lambda>(e, c, currentLedger, missing, db, i, n, k).
          unat currentLedger - unat i)")
     (auto, unat_arith)

declare backfill_loop.simps [simp del]

text \<open>The body of the \<^verbatim>\<open>go func()\<close> of lines 151 to 201.\<close>

definition backfill_task ::
  "('s, 'x, 'm, 'p, 'o) env \<Rightarrow> 'x backfill_client \<Rightarrow> 's \<Rightarrow> u64 \<Rightarrow> u64 \<Rightarrow> u64
     \<Rightarrow> 's \<times> bf_result \<times> ('x, 'm, 'p, 'o) event list" where
  "backfill_task e c db start currentLedger missing =
     (case bfConnect c of
        Some er \<Rightarrow>
          (db, BfConnectFailed,
           [CallBackfillConnect, Log ''Failed to connect backfill client: %v'' [ArgStr er]])
      | None \<Rightarrow>
          (case backfill_loop e c currentLedger missing db start 0 0 of
             (db', r, evs) \<Rightarrow> (db', r, CallBackfillConnect # evs)))"

section \<open>Start-up and the live loop\<close>

text \<open>
  The flags of the process and what each call of the start-up phase returns. The error
  of a call is \<open>Some\<close> in an option and \<open>Inl\<close> in a sum.
\<close>

record startup_env =
  showVersion :: bool
  buildTime :: string
  rippledWS :: string
  dbConnStr :: string
  startLedger :: u64
  NewStore :: "err option"
  GetLastCheckpoint :: "err + checkpoint option"
  Connect :: "err option"
  GetServerInfo :: "err + u64"
  Subscribe :: "err option"




text \<open>
  What the \<^verbatim>\<open>select\<close> of the live loop receives: a shutdown signal, an error of the
  client, or a ledger of the subscription, with the clock reading of its processing.
\<close>

datatype 'x chan_event = SigChan | ErrorChan err | LedgerChan "'x ledger" int

text \<open>
  One round of the loop of lines 217 to 231. The flag returned is \<open>True\<close> when the loop
  returns, which ends \<^verbatim>\<open>main\<close> and the process.
\<close>

fun live_step ::
  "('s, 'x, 'm, 'p, 'o) env \<Rightarrow> 's \<Rightarrow> 'x chan_event
     \<Rightarrow> 's \<times> bool \<times> ('x, 'm, 'p, 'o) event list" where
  "live_step e db SigChan =
     (db, True, [Log ''Shutdown signal received - closing gracefully'' []])"
| "live_step e db (ErrorChan er) =
     (db, False, [Log ''Error from rippled client: %v'' [ArgStr er]])"
| "live_step e db (LedgerChan ledger duration) =
     (case processLedger e db ledger duration of
        (db', None, evs) \<Rightarrow> (db', False, evs)
      | (db', Some er, evs) \<Rightarrow>
          (db', False,
           evs @ [Log ''Error processing ledger %d: %v''
                    [ArgWord (LedgerIndex ledger), ArgStr er]]))"

text \<open>
  The live loop on the sequence of values it receives. It stops at the first shutdown
  signal; at the end of the sequence it is waiting for the next value.
\<close>

fun main_loop ::
  "('s, 'x, 'm, 'p, 'o) env \<Rightarrow> 's \<Rightarrow> 'x chan_event list
     \<Rightarrow> 's \<times> bool \<times> ('x, 'm, 'p, 'o) event list" where
  "main_loop e db [] = (db, False, [])"
| "main_loop e db (ev # rest) =
     (case live_step e db ev of
        (db', True, evs) \<Rightarrow> (db', True, evs)
      | (db', False, evs) \<Rightarrow>
          (case main_loop e db' rest of
             (db'', stopped, evs') \<Rightarrow> (db'', stopped, evs @ evs')))"

subsection \<open>The two tasks side by side\<close>

text \<open>
  The backfill task runs as a goroutine next to the live loop, on the same store. A
  schedule is the order in which the two take their turns: \<open>LiveTurn ev\<close> is one round
  of the live loop, \<open>BackfillTurn\<close> the next step of the task (its \<^verbatim>\<open>Connect\<close>, or one
  iteration of its loop). A turn is taken as a whole; the finer interleaving of the
  store calls of the two is left to the store. When the live loop returns the process
  ends, and the task with it.
\<close>

datatype bf_state = BfNone | BfSpawned | BfLoop u64 int int | BfReturned bf_result

datatype 'x turn = LiveTurn "'x chan_event" | BackfillTurn

record 's sys =
  sys_db :: 's
  sys_bf :: bf_state
  sys_exited :: bool

definition backfill_turn ::
  "('s, 'x, 'm, 'p, 'o) env \<Rightarrow> 'x backfill_client \<Rightarrow> u64 \<Rightarrow> u64 \<Rightarrow> u64 \<Rightarrow> 's sys
     \<Rightarrow> 's sys \<times> ('x, 'm, 'p, 'o) event list" where
  "backfill_turn e c start currentLedger missing s =
     (case sys_bf s of
        BfNone \<Rightarrow> (s, [])
      | BfReturned r \<Rightarrow> (s, [])
      | BfSpawned \<Rightarrow>
          (case bfConnect c of
             Some er \<Rightarrow>
               (s\<lparr>sys_bf := BfReturned BfConnectFailed\<rparr>,
                [CallBackfillConnect, Log ''Failed to connect backfill client: %v'' [ArgStr er]])
           | None \<Rightarrow> (s\<lparr>sys_bf := BfLoop start 0 0\<rparr>, [CallBackfillConnect]))
      | BfLoop i n k \<Rightarrow>
          (if i < currentLedger then
             (case backfill_iteration e c missing (sys_db s) i n k of
                (db', BfStop, evs) \<Rightarrow>
                  (s\<lparr>sys_db := db', sys_bf := BfReturned (BfAborted i)\<rparr>, evs)
              | (db', BfNext n' k', evs) \<Rightarrow>
                  (s\<lparr>sys_db := db', sys_bf := BfLoop (i + 1) n' k'\<rparr>, evs))
           else
             (s\<lparr>sys_bf := BfReturned (BfComplete n k)\<rparr>,
              [Log ''Backfill complete: %d ledgers in %v (errors: %d)''
                 [ArgInt n, ArgInt k]])))"

definition sys_step ::
  "('s, 'x, 'm, 'p, 'o) env \<Rightarrow> 'x backfill_client \<Rightarrow> u64 \<Rightarrow> u64 \<Rightarrow> u64 \<Rightarrow> 's sys \<Rightarrow> 'x turn
     \<Rightarrow> 's sys \<times> ('x, 'm, 'p, 'o) event list" where
  "sys_step e c start currentLedger missing s t =
     (if sys_exited s then (s, [])
      else
        (case t of
           LiveTurn ev \<Rightarrow>
             (case live_step e (sys_db s) ev of
                (db', stop, evs) \<Rightarrow> (s\<lparr>sys_db := db', sys_exited := stop\<rparr>, evs))
         | BackfillTurn \<Rightarrow> backfill_turn e c start currentLedger missing s))"

fun sys_run ::
  "('s, 'x, 'm, 'p, 'o) env \<Rightarrow> 'x backfill_client \<Rightarrow> u64 \<Rightarrow> u64 \<Rightarrow> u64 \<Rightarrow> 's sys
     \<Rightarrow> 'x turn list \<Rightarrow> 's sys \<times> ('x, 'm, 'p, 'o) event list" where
  "sys_run e c start currentLedger missing s [] = (s, [])"
| "sys_run e c start currentLedger missing s (t # ts) =
     (case sys_step e c start currentLedger missing s t of
        (s', evs) \<Rightarrow>
          (case sys_run e c start currentLedger missing s' ts of
             (s'', evs') \<Rightarrow> (s'', evs @ evs')))"


section \<open>Reading a trace\<close>

text \<open>
  The projections of a trace used to state the properties: the ledger indices asked of
  \<^verbatim>\<open>FetchLedgerSync\<close>, the pauses, the transactions whose processing began (the JSON
  encoding is the first thing done with a transaction), the maps handed to each parser,
  the store writes and the checkpoints written.
\<close>

definition fetched :: "('x, 'm, 'p, 'o) event list \<Rightarrow> u64 list" where
  "fetched evs = concat (map (\<lambda>ev. case ev of CallFetchLedgerSync i \<Rightarrow> [i] | _ \<Rightarrow> []) evs)"

definition sleeps :: "('x, 'm, 'p, 'o) event list \<Rightarrow> nat list" where
  "sleeps evs = concat (map (\<lambda>ev. case ev of Sleep n \<Rightarrow> [n] | _ \<Rightarrow> []) evs)"

definition attempted :: "('x, 'm, 'p, 'o) event list \<Rightarrow> 'x transaction_scheme list" where
  "attempted evs = concat (map (\<lambda>ev. case ev of CallMarshal tx \<Rightarrow> [tx] | _ \<Rightarrow> []) evs)"

definition amm_parsed :: "('x, 'm, 'p, 'o) event list \<Rightarrow> 'm list" where
  "amm_parsed evs = concat (map (\<lambda>ev. case ev of CallAMMParse m i h \<Rightarrow> [m] | _ \<Rightarrow> []) evs)"

definition orderbook_parsed :: "('x, 'm, 'p, 'o) event list \<Rightarrow> 'm list" where
  "orderbook_parsed evs =
     concat (map (\<lambda>ev. case ev of CallOrderbookParse m i h \<Rightarrow> [m] | _ \<Rightarrow> []) evs)"

definition saved :: "('x, 'm, 'p, 'o) event list \<Rightarrow> checkpoint list" where
  "saved evs = concat (map (\<lambda>ev. case ev of CallSaveCheckpoint cp \<Rightarrow> [cp] | _ \<Rightarrow> []) evs)"

definition looked_up :: "('x, 'm, 'p, 'o) event list \<Rightarrow> i64 list" where
  "looked_up evs = concat (map (\<lambda>ev. case ev of CallGetCheckpoint i \<Rightarrow> [i] | _ \<Rightarrow> []) evs)"

definition is_log :: "('x, 'm, 'p, 'o) event \<Rightarrow> bool" where
  "is_log ev = (case ev of Log fmt args \<Rightarrow> True | _ \<Rightarrow> False)"


text \<open>The maps of the transactions that pass the JSON round trip, in order.\<close>

definition decoded ::
  "('s, 'x, 'm, 'p, 'o) env \<Rightarrow> 'x transaction_scheme list \<Rightarrow> 'm list" where
  "decoded e txs =
     concat (map (\<lambda>tx. case jsonMarshal e tx of
                          Inl er \<Rightarrow> []
                        | Inr b \<Rightarrow> (case jsonUnmarshal e b of Inl er \<Rightarrow> [] | Inr m \<Rightarrow> [m])) txs)"

text \<open>The ledger indices from \<open>b\<close> up to and without \<open>c\<close>, ascending.\<close>

definition ledger_range :: "u64 \<Rightarrow> u64 \<Rightarrow> u64 list" where
  "ledger_range b c = map word_of_nat [unat b ..< unat c]"

text \<open>
  The ledger indices a task asked for, a repeated request for the same index counted
  once: the values the loop variable \<open>i\<close> took.
\<close>

definition visited :: "('x, 'm, 'p, 'o) event list \<Rightarrow> u64 list" where
  "visited evs = remdups_adj (fetched evs)"

text \<open>The client fails all three attempts for the ledger \<open>i\<close>.\<close>

definition exhausted :: "'x backfill_client \<Rightarrow> u64 \<Rightarrow> bool" where
  "exhausted c i =
     (isl (FetchLedgerSync c i 0) \<and> isl (FetchLedgerSync c i 1) \<and> isl (FetchLedgerSync c i 2))"

text \<open>The store writes asked for in a trace: pools and offers upserted, offers cancelled.\<close>

definition upserted_pools :: "('x, 'm, 'p, 'o) event list \<Rightarrow> 'p list" where
  "upserted_pools evs =
     concat (map (\<lambda>ev. case ev of CallUpsertAMMPool p \<Rightarrow> [p] | _ \<Rightarrow> []) evs)"

definition upserted_offers :: "('x, 'm, 'p, 'o) event list \<Rightarrow> 'o list" where
  "upserted_offers evs =
     concat (map (\<lambda>ev. case ev of CallUpsertOffer ofr \<Rightarrow> [ofr] | _ \<Rightarrow> []) evs)"

definition cancelled :: "('x, 'm, 'p, 'o) event list \<Rightarrow> (string \<times> int \<times> i64) list" where
  "cancelled evs =
     concat (map (\<lambda>ev. case ev of CallCancelOffer a q i \<Rightarrow> [(a, q, i)] | _ \<Rightarrow> []) evs)"

text \<open>
  The store after the writes of a trace, made in the order of the trace on the store
  \<open>db\<close>: each write event is applied with the method of the store it names.
\<close>

fun replay ::
  "('s, 'x, 'm, 'p, 'o) env \<Rightarrow> 's \<Rightarrow> ('x, 'm, 'p, 'o) event list \<Rightarrow> 's" where
  "replay e db [] = db"
| "replay e db (ev # evs) =
     replay e
       (case ev of
          CallUpsertAMMPool p \<Rightarrow> fst (UpsertAMMPool e db p)
        | CallUpsertOffer ofr \<Rightarrow> fst (UpsertOffer e db ofr)
        | CallCancelOffer a q i \<Rightarrow> fst (CancelOffer e db a q i)
        | CallSaveCheckpoint cp \<Rightarrow> fst (SaveCheckpoint e db cp)
        | _ \<Rightarrow> db)
       evs"

text \<open>
  What the parsers yield for the transactions of a ledger, in order: the pools of the AMM
  parser, the offers of the order-book parser, and the account, sequence and ledger index
  of the cancellations that parse. A transaction that fails the JSON round trip yields
  nothing, and a parser that returns an error yields nothing.
\<close>

definition parsed_pools :: "('s, 'x, 'm, 'p, 'o) env \<Rightarrow> 'x ledger \<Rightarrow> 'p list" where
  "parsed_pools e l =
     concat (map (\<lambda>m. case ammParseTransaction e m (LedgerIndex l) (LedgerHash l) of
                         (Some pool, None) \<Rightarrow> [pool]
                       | _ \<Rightarrow> [])
               (decoded e (Transactions l)))"

definition parsed_offers :: "('s, 'x, 'm, 'p, 'o) env \<Rightarrow> 'x ledger \<Rightarrow> 'o list" where
  "parsed_offers e l =
     concat (map (\<lambda>m. case orderbookParseTransaction e m (LedgerIndex l) (LedgerHash l) of
                         (Some offer, None) \<Rightarrow> [offer]
                       | _ \<Rightarrow> [])
               (decoded e (Transactions l)))"

definition parsed_cancels ::
  "('s, 'x, 'm, 'p, 'o) env \<Rightarrow> 'x ledger \<Rightarrow> (string \<times> int \<times> i64) list" where
  "parsed_cancels e l =
     concat (map (\<lambda>tx. if TransactionType tx = ''OfferCancel'' then
                          (case decoded e [tx] of
                             [m] \<Rightarrow>
                               (case ParseOfferCancel e m of
                                  (account, seq, None) \<Rightarrow> [(account, seq, LedgerIndex l)]
                                | _ \<Rightarrow> [])
                           | _ \<Rightarrow> [])
                        else [])
               (Transactions l))"

subsection \<open>The ledgers of the subscription\<close>



text \<open>The rounds of the live loop in a schedule.\<close>

definition live_events :: "'x turn list \<Rightarrow> 'x chan_event list" where
  "live_events ts = concat (map (\<lambda>t. case t of LiveTurn ev \<Rightarrow> [ev] | BackfillTurn \<Rightarrow> []) ts)"


section \<open>A small instance\<close>

text \<open>
  An in-memory store, parsers that go by the transaction type, and clients with fixed
  answers. They stand in for the external packages where a property is shown at a
  concrete input.
\<close>

type_synonym toy_event = "(unit, string, string, string) event"

definition cp_at :: "i64 \<Rightarrow> checkpoint" where
  "cp_at n =
     \<lparr>cp_LedgerIndex = n, cp_LedgerHash = ''H'', cp_CloseTime = 0,
      cp_CloseTimeHuman = 946684800, cp_TransactionCount = 0, cp_ProcessingDurationMs = 1\<rparr>"

record toy_db =
  toy_checkpoints :: "checkpoint list"
  toy_pools :: "string list"
  toy_offers :: "string list"
  toy_cancelled :: "(string \<times> int) list"

definition toy_env :: "(toy_db, unit, string, string, string) env" where
  "toy_env =
     \<lparr>GetCheckpoint = (\<lambda>db i. (find (\<lambda>c. cp_LedgerIndex c = i) (toy_checkpoints db), None)),
      UpsertAMMPool = (\<lambda>db p. (db\<lparr>toy_pools := p # toy_pools db\<rparr>, None)),
      UpsertOffer = (\<lambda>db ofr. (db, Some ''disk full'')),
      CancelOffer = (\<lambda>db a q i. (db\<lparr>toy_cancelled := (a, q) # toy_cancelled db\<rparr>, None)),
      SaveCheckpoint = (\<lambda>db c. (db\<lparr>toy_checkpoints := c # toy_checkpoints db\<rparr>, None)),
      jsonMarshal = (\<lambda>tx. Inr (TransactionType tx)),
      jsonUnmarshal = (\<lambda>b. Inr b),
      ammParseTransaction =
        (\<lambda>m i h. if m = ''AMMCreate'' then (Some ''XRP/USD'', None)
                 else if m = ''AMMDeposit'' then (None, Some ''malformed'')
                 else (None, None)),
      orderbookParseTransaction =
        (\<lambda>m i h. if m = ''OfferCreate'' then (Some ''offer'', None) else (None, None)),
      ParseOfferCancel = (\<lambda>m. (''rAccount'', 7, None)),
      offerStatus = (\<lambda>ofr. ''active''),
      verbose = True\<rparr>"

text \<open>The same, with a store whose checkpoint look-up fails.\<close>

definition toy_env_down :: "(toy_db, unit, string, string, string) env" where
  "toy_env_down = toy_env\<lparr>GetCheckpoint := (\<lambda>db i. (None, Some ''connection lost''))\<rparr>"

definition toy_db0 :: toy_db where
  "toy_db0 = \<lparr>toy_checkpoints = [cp_at 7], toy_pools = [], toy_offers = [], toy_cancelled = []\<rparr>"

definition tx_of :: "string \<Rightarrow> string \<Rightarrow> transaction" where
  "tx_of h t = \<lparr>Hash = h, TransactionType = t\<rparr>"

definition ledger_at :: "u64 \<Rightarrow> transaction list \<Rightarrow> unit ledger" where
  "ledger_at n txs =
     \<lparr>LedgerIndex = n, LedgerHash = ''H'', LedgerTime = 0, TxnCount = int (length txs),
      Transactions = txs\<rparr>"

text \<open>
  A ledger with an AMM transaction the parser rejects, an offer the store fails to write,
  a pool creation and an offer cancellation.
\<close>

definition toy_ledger9 :: "unit ledger" where
  "toy_ledger9 =
     ledger_at 9 [tx_of ''A'' ''AMMDeposit'', tx_of ''B'' ''OfferCreate'',
                  tx_of ''C'' ''AMMCreate'', tx_of ''D'' ''OfferCancel'']"


text \<open>A client that answers every fetch at once, and one that never returns ledger 1003.\<close>

definition good_client :: "unit backfill_client" where
  "good_client =
     \<lparr>bfConnect = None, FetchLedgerSync = (\<lambda>i k. Inr (ledger_at i [])), bfDuration = (\<lambda>i. 1)\<rparr>"

definition flaky_client :: "unit backfill_client" where
  "flaky_client =
     \<lparr>bfConnect = None,
      FetchLedgerSync = (\<lambda>i k. if i = 1003 then Inl ''timeout'' else Inr (ledger_at i [])),
      bfDuration = (\<lambda>i. 1)\<rparr>"

text \<open>
  The instance without the \<^verbatim>\<open>-v\<close> flag and with a parser that rejects every offer
  cancellation, and a ledger with one cancellation.
\<close>

definition toy_env_quiet :: "(toy_db, unit, string, string, string) env" where
  "toy_env_quiet =
     toy_env\<lparr>ParseOfferCancel := (\<lambda>m. ([], 0, Some ''no sequence'')), verbose := False\<rparr>"

definition toy_ledger12 :: "unit ledger" where
  "toy_ledger12 = ledger_at 12 [tx_of ''D'' ''OfferCancel'']"

text \<open>
  The two tasks at the moment the backfill loop reaches ledger 1003, after two ledgers
  were backfilled.
\<close>

definition toy_sys :: "toy_db sys" where
  "toy_sys = \<lparr>sys_db = toy_db0, sys_bf = BfLoop 1003 2 0, sys_exited = False\<rparr>"

section \<open>Properties of the gap detection\<close>









text \<open>
  Claim C4. The start of the backfill is the larger of the ledger after the checkpoint
  and the configured start ledger (on 64-bit values); for the checkpoint 50, the
  validated ledger 200000 and the start ledger 100000 it is 100000, and the cutoff line
  is logged with that value; and whenever the start so clamped is not below the
  validated ledger, no backfill task is launched.
\<close>

theorem backfill_start_respects_cutoff:
  "backfillStart s cp = max (cp_LedgerIndex cp + 1) s \<and>
   backfillStart 100000 (cp_at 50) = 100000 \<and>
   Log ''Respecting START_LEDGER cutoff: %d'' [ArgWord 100000]
     \<in> set (snd (check_gap 100000 (Some (cp_at 50)) 200000)) \<and>
   (c \<le> backfillStart s cp \<longrightarrow> \<not> launches_backfill (gap_decision s (Some cp) c))"
  by (auto simp: backfillStart_def max_def cp_at_def check_gap_def gap_decision_def Let_def
      gap_def missingCount_def smallGapThreshold_def)

theorem backfill_start_respects_cutoff_witness:
  "(1006 :: u64) \<le> backfillStart 99984580 (cp_at 1000) \<and>
   backfillStart 99984580 (cp_at 1000) = max (cp_LedgerIndex (cp_at 1000) + 1) 99984580 \<and>
   \<not> launches_backfill (gap_decision 99984580 (Some (cp_at 1000)) 1006)"
proof -
  have le: "(1006 :: u64) \<le> backfillStart 99984580 (cp_at 1000)"
    by (simp add: backfillStart_def cp_at_def)
  from backfill_start_respects_cutoff [of 99984580 "cp_at 1000" 1006] le
  show ?thesis by blast
qed

text \<open>
  Claim C10. The large-gap test is made on \<open>gap - 1\<close>, whatever the configured start
  ledger: when \<open>gap - 1\<close> is above 1000 the decision is to skip the backfill for every
  start ledger, also for one that leaves 1000 ledgers or fewer between the clamped start
  and the validated ledger.
\<close>

theorem large_gap_decided_before_cutoff:
  assumes "smallGapThreshold < missingCount c cp" and "1 < gap c cp"
  shows "gap_decision s (Some cp) c = LargeGapSkipped"
  using assms by (simp add: gap_decision_def check_gap_def Let_def)

theorem large_gap_decided_before_cutoff_witness:
  "smallGapThreshold < missingCount 200000 (cp_at 50) \<and> 1 < gap 200000 (cp_at 50) \<and>
   backfillStart 199500 (cp_at 50) = 199500 \<and>
   ledger_range (backfillStart 199500 (cp_at 50)) 200000 = map word_of_nat [199500 ..< 200000] \<and>
   length (ledger_range (backfillStart 199500 (cp_at 50)) 200000) = 500 \<and>
   gap_decision 199500 (Some (cp_at 50)) 200000 = LargeGapSkipped"
proof -
  have a: "smallGapThreshold < missingCount 200000 (cp_at 50)"
    by (simp add: cp_at_def gap_def missingCount_def smallGapThreshold_def)
  have b: "1 < gap 200000 (cp_at 50)"
    by (simp add: cp_at_def gap_def)
  have c: "backfillStart 199500 (cp_at 50) = 199500"
    by (simp add: backfillStart_def cp_at_def)
  have d: "ledger_range (backfillStart 199500 (cp_at 50)) 200000 =
      map word_of_nat [199500 ..< 200000]"
    by (simp add: c ledger_range_def)
  have e: "length (ledger_range (backfillStart 199500 (cp_at 50)) 200000) = 500"
    by (simp add: d)
  from large_gap_decided_before_cutoff [OF a b, of 199500] a b c d e show ?thesis by simp
qed

section \<open>Properties of the start-up order\<close>






section \<open>Properties of the processing of a ledger\<close>

lemmas toy_defs = toy_env_def toy_env_down_def toy_db0_def ledger_at_def tx_of_def cp_at_def
  toy_ledger9_def

lemmas run_defs = processLedger_def process_body_def process_tx_def amm_step_def
  orderbook_step_def cancel_step_def continuity_check_def new_checkpoint_def logVerbose_def
  Let_def

lemma proj_Nil [simp]:
  "fetched [] = []" "sleeps [] = []" "attempted [] = []" "amm_parsed [] = []"
  "orderbook_parsed [] = []" "saved [] = []"
  by (simp_all add: fetched_def sleeps_def attempted_def amm_parsed_def orderbook_parsed_def
      saved_def)

lemma proj_append [simp]:
  "fetched (a @ b) = fetched a @ fetched b"
  "sleeps (a @ b) = sleeps a @ sleeps b"
  "attempted (a @ b) = attempted a @ attempted b"
  "amm_parsed (a @ b) = amm_parsed a @ amm_parsed b"
  "orderbook_parsed (a @ b) = orderbook_parsed a @ orderbook_parsed b"
  "saved (a @ b) = saved a @ saved b"
  by (simp_all add: fetched_def sleeps_def attempted_def amm_parsed_def orderbook_parsed_def
      saved_def)

lemma proj_Cons [simp]:
  "fetched (ev # evs) = (case ev of CallFetchLedgerSync i \<Rightarrow> [i] | _ \<Rightarrow> []) @ fetched evs"
  "sleeps (ev # evs) = (case ev of Sleep n \<Rightarrow> [n] | _ \<Rightarrow> []) @ sleeps evs"
  "attempted (ev # evs) = (case ev of CallMarshal tx \<Rightarrow> [tx] | _ \<Rightarrow> []) @ attempted evs"
  "amm_parsed (ev # evs) = (case ev of CallAMMParse m i h \<Rightarrow> [m] | _ \<Rightarrow> []) @ amm_parsed evs"
  "orderbook_parsed (ev # evs) =
     (case ev of CallOrderbookParse m i h \<Rightarrow> [m] | _ \<Rightarrow> []) @ orderbook_parsed evs"
  "saved (ev # evs) = (case ev of CallSaveCheckpoint cp \<Rightarrow> [cp] | _ \<Rightarrow> []) @ saved evs"
  by (simp_all add: fetched_def sleeps_def attempted_def amm_parsed_def orderbook_parsed_def
      saved_def)

lemma proj_logVerbose [simp]:
  "fetched (logVerbose v f a) = []" "sleeps (logVerbose v f a) = []"
  "attempted (logVerbose v f a) = []" "amm_parsed (logVerbose v f a) = []"
  "orderbook_parsed (logVerbose v f a) = []" "saved (logVerbose v f a) = []"
  by (simp_all add: logVerbose_def)

lemma amm_step_proj [simp]:
  "fetched (snd (amm_step e db l tx m)) = []"
  "sleeps (snd (amm_step e db l tx m)) = []"
  "attempted (snd (amm_step e db l tx m)) = []"
  "amm_parsed (snd (amm_step e db l tx m)) = [m]"
  "orderbook_parsed (snd (amm_step e db l tx m)) = []"
  "saved (snd (amm_step e db l tx m)) = []"
  by (simp_all add: amm_step_def split: prod.splits option.splits)

lemma orderbook_step_proj [simp]:
  "fetched (snd (orderbook_step e db l tx m)) = []"
  "sleeps (snd (orderbook_step e db l tx m)) = []"
  "attempted (snd (orderbook_step e db l tx m)) = []"
  "amm_parsed (snd (orderbook_step e db l tx m)) = []"
  "orderbook_parsed (snd (orderbook_step e db l tx m)) = [m]"
  "saved (snd (orderbook_step e db l tx m)) = []"
  by (simp_all add: orderbook_step_def split: prod.splits option.splits)

lemma cancel_step_proj [simp]:
  "fetched (snd (cancel_step e db l tx m)) = []"
  "sleeps (snd (cancel_step e db l tx m)) = []"
  "attempted (snd (cancel_step e db l tx m)) = []"
  "amm_parsed (snd (cancel_step e db l tx m)) = []"
  "orderbook_parsed (snd (cancel_step e db l tx m)) = []"
  "saved (snd (cancel_step e db l tx m)) = []"
  by (simp_all add: cancel_step_def split: prod.splits option.splits)

lemma process_tx_proj [simp]:
  "fetched (snd (process_tx e db l tx)) = []"
  "sleeps (snd (process_tx e db l tx)) = []"
  "attempted (snd (process_tx e db l tx)) = [tx]"
  "amm_parsed (snd (process_tx e db l tx)) = decoded e [tx]"
  "orderbook_parsed (snd (process_tx e db l tx)) = decoded e [tx]"
  "saved (snd (process_tx e db l tx)) = []"
  by (simp_all add: process_tx_def decoded_def Let_def case_prod_beta split: sum.splits)

lemma process_txs_proj [simp]:
  "fetched (snd (process_txs e db l txs)) = []"
  "sleeps (snd (process_txs e db l txs)) = []"
  "attempted (snd (process_txs e db l txs)) = txs"
  "amm_parsed (snd (process_txs e db l txs)) = decoded e txs"
  "orderbook_parsed (snd (process_txs e db l txs)) = decoded e txs"
  "saved (snd (process_txs e db l txs)) = []"
  by (induction txs arbitrary: db; simp add: case_prod_beta decoded_def)+

lemma continuity_check_proj [simp]:
  "fetched (continuity_check e db l) = []"
  "sleeps (continuity_check e db l) = []"
  "attempted (continuity_check e db l) = []"
  "amm_parsed (continuity_check e db l) = []"
  "orderbook_parsed (continuity_check e db l) = []"
  "saved (continuity_check e db l) = []"
  by (simp_all add: continuity_check_def split: prod.splits option.splits)


text \<open>What a ledger that passes the duplicate guard goes through.\<close>

lemma process_body_shape:
  "\<exists>post. process_body e db l d =
     (fst (SaveCheckpoint e (fst (process_txs e db l (Transactions l))) (new_checkpoint l d)),
      snd (SaveCheckpoint e (fst (process_txs e db l (Transactions l))) (new_checkpoint l d)),
      (continuity_check e db l @
       Log ''Processing ledger %d (hash: %s, txns: %d)''
         [ArgWord (LedgerIndex l), ArgStr (LedgerHash l), ArgInt (TxnCount l)] #
       snd (process_txs e db l (Transactions l))) @
      CallSaveCheckpoint (new_checkpoint l d) # post) \<and>
     list_all is_log post"
  by (cases "SaveCheckpoint e (fst (process_txs e db l (Transactions l))) (new_checkpoint l d)")
     (auto simp: process_body_def Let_def case_prod_beta is_log_def split: option.splits)

lemma processLedger_fresh:
  assumes "\<forall>cp. GetCheckpoint e db (LedgerIndex l) \<noteq> (Some cp, None)"
  shows "processLedger e db l d =
     (fst (process_body e db l d), fst (snd (process_body e db l d)),
      CallGetCheckpoint (LedgerIndex l) # snd (snd (process_body e db l d)))"
  using assms
  by (cases "GetCheckpoint e db (LedgerIndex l)")
     (auto simp: processLedger_def case_prod_beta split: option.splits)

lemma processLedger_skip:
  assumes "GetCheckpoint e db (LedgerIndex l) = (Some cp, None)"
  shows "processLedger e db l d =
           (db, None,
            CallGetCheckpoint (LedgerIndex l) #
            logVerbose (verbose e) ''Skipping already processed ledger %d''
              [ArgWord (LedgerIndex l)])"
  using assms by (simp add: processLedger_def)

lemma processLedger_nil_saved:
  assumes "processLedger e db l d = (db', None, tr)"
  shows "(\<exists>cp. GetCheckpoint e db (LedgerIndex l) = (Some cp, None) \<and> db' = db) \<or>
         (\<exists>s. SaveCheckpoint e s (new_checkpoint l d) = (db', None))"
proof (cases "\<exists>cp. GetCheckpoint e db (LedgerIndex l) = (Some cp, None)")
  case True
  with assms show ?thesis by (auto simp: processLedger_skip)
next
  case False
  then have guard: "\<forall>cp. GetCheckpoint e db (LedgerIndex l) \<noteq> (Some cp, None)"
    by simp
  from processLedger_fresh [OF guard, of d] assms process_body_shape [of e db l d]
  have "SaveCheckpoint e (fst (process_txs e db l (Transactions l))) (new_checkpoint l d) =
      (db', None)"
    by (auto simp: prod_eq_iff)
  then show ?thesis by blast
qed

subsection \<open>The store writes of a ledger\<close>

lemma writes_Nil [simp]:
  "upserted_pools [] = []" "upserted_offers [] = []" "cancelled [] = []"
  by (simp_all add: upserted_pools_def upserted_offers_def cancelled_def)

lemma writes_append [simp]:
  "upserted_pools (a @ b) = upserted_pools a @ upserted_pools b"
  "upserted_offers (a @ b) = upserted_offers a @ upserted_offers b"
  "cancelled (a @ b) = cancelled a @ cancelled b"
  by (simp_all add: upserted_pools_def upserted_offers_def cancelled_def)

lemma writes_Cons [simp]:
  "upserted_pools (ev # evs) =
     (case ev of CallUpsertAMMPool p \<Rightarrow> [p] | _ \<Rightarrow> []) @ upserted_pools evs"
  "upserted_offers (ev # evs) =
     (case ev of CallUpsertOffer ofr \<Rightarrow> [ofr] | _ \<Rightarrow> []) @ upserted_offers evs"
  "cancelled (ev # evs) =
     (case ev of CallCancelOffer a q i \<Rightarrow> [(a, q, i)] | _ \<Rightarrow> []) @ cancelled evs"
  by (simp_all add: upserted_pools_def upserted_offers_def cancelled_def)

lemma writes_logVerbose [simp]:
  "upserted_pools (logVerbose v f a) = []" "upserted_offers (logVerbose v f a) = []"
  "cancelled (logVerbose v f a) = []" "replay e db (logVerbose v f a) = db"
  by (simp_all add: logVerbose_def)

lemma replay_append [simp]: "replay e db (a @ b) = replay e (replay e db a) b"
  by (induction a arbitrary: db) simp_all

lemma replay_logs: "list_all is_log evs \<Longrightarrow> replay e db evs = db"
  by (induction evs arbitrary: db) (auto simp: is_log_def split: event.splits)

lemma writes_logs:
  "list_all is_log evs \<Longrightarrow>
   upserted_pools evs = [] \<and> upserted_offers evs = [] \<and> cancelled evs = []"
  by (induction evs) (auto simp: is_log_def split: event.splits)

lemma amm_step_writes [simp]:
  "upserted_pools (snd (amm_step e db l tx m)) =
     (case ammParseTransaction e m (LedgerIndex l) (LedgerHash l) of
        (Some pool, None) \<Rightarrow> [pool] | _ \<Rightarrow> [])"
  "upserted_offers (snd (amm_step e db l tx m)) = []"
  "cancelled (snd (amm_step e db l tx m)) = []"
  "replay e db (snd (amm_step e db l tx m)) = fst (amm_step e db l tx m)"
  by (simp_all add: amm_step_def split: prod.splits option.splits)

lemma orderbook_step_writes [simp]:
  "upserted_pools (snd (orderbook_step e db l tx m)) = []"
  "upserted_offers (snd (orderbook_step e db l tx m)) =
     (case orderbookParseTransaction e m (LedgerIndex l) (LedgerHash l) of
        (Some offer, None) \<Rightarrow> [offer] | _ \<Rightarrow> [])"
  "cancelled (snd (orderbook_step e db l tx m)) = []"
  "replay e db (snd (orderbook_step e db l tx m)) = fst (orderbook_step e db l tx m)"
  by (simp_all add: orderbook_step_def split: prod.splits option.splits)

lemma cancel_step_writes [simp]:
  "upserted_pools (snd (cancel_step e db l tx m)) = []"
  "upserted_offers (snd (cancel_step e db l tx m)) = []"
  "cancelled (snd (cancel_step e db l tx m)) =
     (if TransactionType tx = ''OfferCancel'' then
        (case ParseOfferCancel e m of
           (account, seq, None) \<Rightarrow> [(account, seq, LedgerIndex l)] | _ \<Rightarrow> [])
      else [])"
  "replay e db (snd (cancel_step e db l tx m)) = fst (cancel_step e db l tx m)"
  by (simp_all add: cancel_step_def split: prod.splits option.splits)

lemma process_tx_writes [simp]:
  "upserted_pools (snd (process_tx e db l tx)) =
     concat (map (\<lambda>m. case ammParseTransaction e m (LedgerIndex l) (LedgerHash l) of
                         (Some pool, None) \<Rightarrow> [pool] | _ \<Rightarrow> []) (decoded e [tx]))"
  "upserted_offers (snd (process_tx e db l tx)) =
     concat (map (\<lambda>m. case orderbookParseTransaction e m (LedgerIndex l) (LedgerHash l) of
                         (Some offer, None) \<Rightarrow> [offer] | _ \<Rightarrow> []) (decoded e [tx]))"
  "cancelled (snd (process_tx e db l tx)) =
     (if TransactionType tx = ''OfferCancel'' then
        (case decoded e [tx] of
           [m] \<Rightarrow>
             (case ParseOfferCancel e m of
                (account, seq, None) \<Rightarrow> [(account, seq, LedgerIndex l)] | _ \<Rightarrow> [])
         | _ \<Rightarrow> [])
      else [])"
  "replay e db (snd (process_tx e db l tx)) = fst (process_tx e db l tx)"
  by (simp_all add: process_tx_def decoded_def Let_def case_prod_beta split: sum.splits)

lemma decoded_Cons: "decoded e (tx # txs) = decoded e [tx] @ decoded e txs"
  by (simp add: decoded_def)

lemma process_txs_writes:
  "upserted_pools (snd (process_txs e db l txs)) =
     concat (map (\<lambda>m. case ammParseTransaction e m (LedgerIndex l) (LedgerHash l) of
                         (Some pool, None) \<Rightarrow> [pool] | _ \<Rightarrow> []) (decoded e txs))"
  "upserted_offers (snd (process_txs e db l txs)) =
     concat (map (\<lambda>m. case orderbookParseTransaction e m (LedgerIndex l) (LedgerHash l) of
                         (Some offer, None) \<Rightarrow> [offer] | _ \<Rightarrow> []) (decoded e txs))"
  "cancelled (snd (process_txs e db l txs)) =
     concat (map (\<lambda>tx. if TransactionType tx = ''OfferCancel'' then
                          (case decoded e [tx] of
                             [m] \<Rightarrow>
                               (case ParseOfferCancel e m of
                                  (account, seq, None) \<Rightarrow> [(account, seq, LedgerIndex l)]
                                | _ \<Rightarrow> [])
                           | _ \<Rightarrow> [])
                        else []) txs)"
  "replay e db (snd (process_txs e db l txs)) = fst (process_txs e db l txs)"
proof (induction txs arbitrary: db)
  case Nil
  {
    case 1 show ?case by (simp add: decoded_def)
  next
    case 2 show ?case by (simp add: decoded_def)
  next
    case 3 show ?case by simp
  next
    case 4 show ?case by simp
  }
next
  case (Cons tx txs)
  {
    case 1 show ?case
      by (simp add: case_prod_beta Cons.IH(1) decoded_Cons [of e tx txs])
  next
    case 2 show ?case
      by (simp add: case_prod_beta Cons.IH(2) decoded_Cons [of e tx txs])
  next
    case 3 show ?case
      by (simp add: case_prod_beta Cons.IH(3))
  next
    case 4 show ?case
      by (simp add: case_prod_beta Cons.IH(4))
  }
qed

lemma continuity_check_writes [simp]:
  "upserted_pools (continuity_check e db l) = []"
  "upserted_offers (continuity_check e db l) = []"
  "cancelled (continuity_check e db l) = []"
  "replay e db' (continuity_check e db l) = db'"
  by (simp_all add: continuity_check_def split: prod.splits option.splits)

text \<open>The store returned is the store after the writes of the trace.\<close>

lemma processLedger_replay:
  assumes "processLedger e db l d = (db', r, tr)"
  shows "db' = replay e db tr"
proof (cases "\<exists>cp. GetCheckpoint e db (LedgerIndex l) = (Some cp, None)")
  case True
  with assms show ?thesis by (auto simp: processLedger_skip)
next
  case False
  then have guard: "\<forall>cp. GetCheckpoint e db (LedgerIndex l) \<noteq> (Some cp, None)" by simp
  obtain post where body: "process_body e db l d =
     (fst (SaveCheckpoint e (fst (process_txs e db l (Transactions l))) (new_checkpoint l d)),
      snd (SaveCheckpoint e (fst (process_txs e db l (Transactions l))) (new_checkpoint l d)),
      (continuity_check e db l @
       Log ''Processing ledger %d (hash: %s, txns: %d)''
         [ArgWord (LedgerIndex l), ArgStr (LedgerHash l), ArgInt (TxnCount l)] #
       snd (process_txs e db l (Transactions l))) @
      CallSaveCheckpoint (new_checkpoint l d) # post)"
    and post: "list_all is_log post"
    using process_body_shape [of e db l d] by auto
  from processLedger_fresh [OF guard, of d] assms body
  have "db' = fst (SaveCheckpoint e (fst (process_txs e db l (Transactions l)))
      (new_checkpoint l d))"
    and "tr = CallGetCheckpoint (LedgerIndex l) #
      (continuity_check e db l @
       Log ''Processing ledger %d (hash: %s, txns: %d)''
         [ArgWord (LedgerIndex l), ArgStr (LedgerHash l), ArgInt (TxnCount l)] #
       snd (process_txs e db l (Transactions l))) @
      CallSaveCheckpoint (new_checkpoint l d) # post"
    by simp_all
  then show ?thesis
    by (simp add: process_txs_writes(4) replay_logs [OF post])
qed

lemma processLedger_fresh_writes:
  assumes guard: "\<forall>cp. GetCheckpoint e db (LedgerIndex l) \<noteq> (Some cp, None)"
    and run: "processLedger e db l d = (db', r, tr)"
  shows "upserted_pools tr = parsed_pools e l \<and> upserted_offers tr = parsed_offers e l \<and>
     cancelled tr = parsed_cancels e l"
proof -
  obtain post where body: "process_body e db l d =
     (fst (SaveCheckpoint e (fst (process_txs e db l (Transactions l))) (new_checkpoint l d)),
      snd (SaveCheckpoint e (fst (process_txs e db l (Transactions l))) (new_checkpoint l d)),
      (continuity_check e db l @
       Log ''Processing ledger %d (hash: %s, txns: %d)''
         [ArgWord (LedgerIndex l), ArgStr (LedgerHash l), ArgInt (TxnCount l)] #
       snd (process_txs e db l (Transactions l))) @
      CallSaveCheckpoint (new_checkpoint l d) # post)"
    and post: "list_all is_log post"
    using process_body_shape [of e db l d] by auto
  from processLedger_fresh [OF guard, of d] run body
  have "tr = CallGetCheckpoint (LedgerIndex l) #
      (continuity_check e db l @
       Log ''Processing ledger %d (hash: %s, txns: %d)''
         [ArgWord (LedgerIndex l), ArgStr (LedgerHash l), ArgInt (TxnCount l)] #
       snd (process_txs e db l (Transactions l))) @
      CallSaveCheckpoint (new_checkpoint l d) # post"
    by simp
  then show ?thesis
    by (simp add: process_txs_writes writes_logs [OF post] parsed_pools_def parsed_offers_def
        parsed_cancels_def)
qed


subsection \<open>The log lines of failures\<close>

lemma process_txs_append:
  "process_txs e db l (xs @ ys) =
     (fst (process_txs e (fst (process_txs e db l xs)) l ys),
      snd (process_txs e db l xs) @ snd (process_txs e (fst (process_txs e db l xs)) l ys))"
  by (induction xs arbitrary: db) (simp_all add: case_prod_beta)

lemma tx_events_in_ledger:
  "set (snd (process_tx e (fst (process_txs e db l txs1)) l tx))
     \<subseteq> set (snd (process_txs e db l (txs1 @ tx # txs2)))"
  by (auto simp: process_txs_append case_prod_beta)

lemma process_tx_marshal_fails:
  "jsonMarshal e tx = Inl er \<Longrightarrow>
   Log ''Failed to marshal transaction: %v'' [ArgStr er] \<in> set (snd (process_tx e dk l tx))"
  by (simp add: process_tx_def Let_def)

lemma process_tx_unmarshal_fails:
  "jsonMarshal e tx = Inr b \<Longrightarrow> jsonUnmarshal e b = Inl er \<Longrightarrow>
   Log ''Failed to unmarshal transaction: %v'' [ArgStr er] \<in> set (snd (process_tx e dk l tx))"
  by (simp add: process_tx_def Let_def)

lemma process_tx_decoded:
  assumes "jsonMarshal e tx = Inr b" and "jsonUnmarshal e b = Inr m"
  shows "snd (process_tx e dk l tx) =
     (logVerbose (verbose e) ''Processing tx %s (type: %s)''
        [ArgStr (Hash tx), ArgStr (TransactionType tx)] @ [CallMarshal tx]) @
     [CallUnmarshal b] @ snd (amm_step e dk l tx m) @
     snd (orderbook_step e (fst (amm_step e dk l tx m)) l tx m) @
     snd (cancel_step e (fst (orderbook_step e (fst (amm_step e dk l tx m)) l tx m)) l tx m)"
  by (simp add: process_tx_def assms Let_def case_prod_beta)

lemma amm_step_logs:
  "snd (ammParseTransaction e m (LedgerIndex l) (LedgerHash l)) = Some er \<Longrightarrow>
   Log ''AMM parser error on tx %s: %v'' [ArgStr (Hash tx), ArgStr er]
     \<in> set (snd (amm_step e d l tx m))"
  "ammParseTransaction e m (LedgerIndex l) (LedgerHash l) = (Some pool, None) \<Longrightarrow>
   snd (UpsertAMMPool e d pool) = Some er \<Longrightarrow>
   Log ''Failed to upsert AMM pool: %v'' [ArgStr er] \<in> set (snd (amm_step e d l tx m))"
  by (auto simp: amm_step_def split: prod.splits option.splits)

lemma orderbook_step_logs:
  "snd (orderbookParseTransaction e m (LedgerIndex l) (LedgerHash l)) = Some er \<Longrightarrow>
   Log ''Orderbook parser error on tx %s: %v'' [ArgStr (Hash tx), ArgStr er]
     \<in> set (snd (orderbook_step e d l tx m))"
  "orderbookParseTransaction e m (LedgerIndex l) (LedgerHash l) = (Some offer, None) \<Longrightarrow>
   snd (UpsertOffer e d offer) = Some er \<Longrightarrow>
   Log ''Failed to upsert offer: %v'' [ArgStr er] \<in> set (snd (orderbook_step e d l tx m))"
  by (auto simp: orderbook_step_def split: prod.splits option.splits)

lemma cancel_step_logs:
  "TransactionType tx = ''OfferCancel'' \<Longrightarrow> ParseOfferCancel e m = (account, seq, None) \<Longrightarrow>
   snd (CancelOffer e d account seq (LedgerIndex l)) = Some er \<Longrightarrow>
   Log ''Failed to cancel offer: %v'' [ArgStr er] \<in> set (snd (cancel_step e d l tx m))"
  "TransactionType tx = ''OfferCancel'' \<Longrightarrow> ParseOfferCancel e m = (account, seq, Some er) \<Longrightarrow>
   cancel_step e d l tx m =
     (d, CallParseOfferCancel m #
         logVerbose (verbose e) ''  OfferCancel parse error: %v'' [ArgStr er])"
  by (auto simp: cancel_step_def split: prod.splits option.splits)


subsection \<open>A ledger that passes the duplicate guard\<close>

text \<open>
  Claim C6, as stated, has every failure on a transaction logged. A cancellation that
  does not parse is logged by \<^verbatim>\<open>logVerbose\<close> only (line 324): without the \<^verbatim>\<open>-v\<close>
  flag, for a ledger whose one transaction is an \<^verbatim>\<open>OfferCancel\<close> the parser rejects,
  the trace holds the processing line and the final line and nothing about the failure.
\<close>

theorem failures_do_not_stop_ledger_counterexample:
  "\<not> verbose toy_env_quiet \<and>
   Transactions toy_ledger12 = [tx_of ''D'' ''OfferCancel''] \<and>
   ParseOfferCancel toy_env_quiet ''OfferCancel'' = ([], 0, Some ''no sequence'') \<and>
   snd (snd (processLedger toy_env_quiet toy_db0 toy_ledger12 1)) =
     [CallGetCheckpoint 12, CallGetCheckpoint 11,
      Log ''Processing ledger %d (hash: %s, txns: %d)'' [ArgWord 12, ArgStr ''H'', ArgInt 1],
      CallMarshal (tx_of ''D'' ''OfferCancel''), CallUnmarshal ''OfferCancel'',
      CallAMMParse ''OfferCancel'' 12 ''H'', CallOrderbookParse ''OfferCancel'' 12 ''H'',
      CallParseOfferCancel ''OfferCancel'',
      CallSaveCheckpoint (new_checkpoint toy_ledger12 1),
      Log ''Ledger %d indexed in %v'' [ArgWord 12, ArgInt 1]] \<and>
   filter is_log (snd (snd (processLedger toy_env_quiet toy_db0 toy_ledger12 1))) =
     [Log ''Processing ledger %d (hash: %s, txns: %d)'' [ArgWord 12, ArgStr ''H'', ArgInt 1],
      Log ''Ledger %d indexed in %v'' [ArgWord 12, ArgInt 1]]"
  by (simp add: toy_defs toy_env_quiet_def toy_ledger12_def run_defs is_log_def)

text \<open>
  Claim C6, amended. When a ledger passes the duplicate guard, every transaction of the
  ledger is taken up, in order, whatever the parsers and the store answer; both parsers
  see every transaction that passes the JSON round trip; every pool and every offer the
  parsers yield is upserted and every cancellation that parses is made, in order, and
  the store returned is the store after these writes; the checkpoint of the ledger (its
  index, hash, close time and transaction count, with the duration) is written once,
  after all of that, and followed by log lines only; and the store and the error
  returned are those of the checkpoint write, so the result is an error exactly when
  that write fails. A failure of the JSON round trip, of a parser, of an upsert or of a
  cancellation leaves its line in the trace; a cancellation that does not parse leaves
  its line in verbose mode only.
\<close>

theorem failures_do_not_stop_ledger:
  assumes guard: "\<forall>cp. GetCheckpoint e db (LedgerIndex l) \<noteq> (Some cp, None)"
    and run: "processLedger e db l d = (db', r, tr)"
  shows "(\<exists>pre post.
       tr = pre @ CallSaveCheckpoint (new_checkpoint l d) # post \<and>
       attempted pre = Transactions l \<and>
       amm_parsed pre = decoded e (Transactions l) \<and>
       orderbook_parsed pre = decoded e (Transactions l) \<and>
       saved pre = [] \<and> list_all is_log post \<and>
       (db', r) =
         SaveCheckpoint e (fst (process_txs e db l (Transactions l))) (new_checkpoint l d)) \<and>
     new_checkpoint l d =
       \<lparr>cp_LedgerIndex = LedgerIndex l, cp_LedgerHash = LedgerHash l,
        cp_CloseTime = LedgerTime l, cp_CloseTimeHuman = LedgerTime l + 946684800,
        cp_TransactionCount = TxnCount l, cp_ProcessingDurationMs = d\<rparr> \<and>
     upserted_pools tr = parsed_pools e l \<and> upserted_offers tr = parsed_offers e l \<and>
     cancelled tr = parsed_cancels e l \<and> db' = replay e db tr \<and>
     (Transactions l = txs1 @ tx # txs2 \<and> jsonMarshal e tx = Inl er \<longrightarrow>
        Log ''Failed to marshal transaction: %v'' [ArgStr er] \<in> set tr) \<and>
     (Transactions l = txs1 @ tx # txs2 \<and> jsonMarshal e tx = Inr b \<and>
      jsonUnmarshal e b = Inl er \<longrightarrow>
        Log ''Failed to unmarshal transaction: %v'' [ArgStr er] \<in> set tr) \<and>
     (Transactions l = txs1 @ tx # txs2 \<and> jsonMarshal e tx = Inr b \<and>
      jsonUnmarshal e b = Inr m \<and>
      dk = fst (process_txs e db l txs1) \<and> da = fst (amm_step e dk l tx m) \<and>
      dob = fst (orderbook_step e da l tx m) \<longrightarrow>
        (snd (ammParseTransaction e m (LedgerIndex l) (LedgerHash l)) = Some er \<longrightarrow>
           Log ''AMM parser error on tx %s: %v'' [ArgStr (Hash tx), ArgStr er] \<in> set tr) \<and>
        (ammParseTransaction e m (LedgerIndex l) (LedgerHash l) = (Some pool, None) \<and>
         snd (UpsertAMMPool e dk pool) = Some er \<longrightarrow>
           Log ''Failed to upsert AMM pool: %v'' [ArgStr er] \<in> set tr) \<and>
        (snd (orderbookParseTransaction e m (LedgerIndex l) (LedgerHash l)) = Some er \<longrightarrow>
           Log ''Orderbook parser error on tx %s: %v'' [ArgStr (Hash tx), ArgStr er]
             \<in> set tr) \<and>
        (orderbookParseTransaction e m (LedgerIndex l) (LedgerHash l) = (Some offer, None) \<and>
         snd (UpsertOffer e da offer) = Some er \<longrightarrow>
           Log ''Failed to upsert offer: %v'' [ArgStr er] \<in> set tr) \<and>
        (TransactionType tx = ''OfferCancel'' \<and> ParseOfferCancel e m = (account, seq, None) \<and>
         snd (CancelOffer e dob account seq (LedgerIndex l)) = Some er \<longrightarrow>
           Log ''Failed to cancel offer: %v'' [ArgStr er] \<in> set tr) \<and>
        (TransactionType tx = ''OfferCancel'' \<and>
         ParseOfferCancel e m = (account, seq, Some er) \<longrightarrow>
           cancel_step e dob l tx m =
             (dob, CallParseOfferCancel m #
                   logVerbose (verbose e) ''  OfferCancel parse error: %v'' [ArgStr er]) \<and>
           set (snd (cancel_step e dob l tx m)) \<subseteq> set tr))"
proof -
  obtain post where body: "process_body e db l d =
     (fst (SaveCheckpoint e (fst (process_txs e db l (Transactions l))) (new_checkpoint l d)),
      snd (SaveCheckpoint e (fst (process_txs e db l (Transactions l))) (new_checkpoint l d)),
      (continuity_check e db l @
       Log ''Processing ledger %d (hash: %s, txns: %d)''
         [ArgWord (LedgerIndex l), ArgStr (LedgerHash l), ArgInt (TxnCount l)] #
       snd (process_txs e db l (Transactions l))) @
      CallSaveCheckpoint (new_checkpoint l d) # post)"
    and post: "list_all is_log post"
    using process_body_shape [of e db l d] by auto
  let ?pre = "CallGetCheckpoint (LedgerIndex l) #
       continuity_check e db l @
       Log ''Processing ledger %d (hash: %s, txns: %d)''
         [ArgWord (LedgerIndex l), ArgStr (LedgerHash l), ArgInt (TxnCount l)] #
       snd (process_txs e db l (Transactions l))"
  from processLedger_fresh [OF guard, of d] run body
  have tr: "tr = ?pre @ CallSaveCheckpoint (new_checkpoint l d) # post"
    and res: "(db', r) =
      SaveCheckpoint e (fst (process_txs e db l (Transactions l))) (new_checkpoint l d)"
    by simp_all
  have "attempted ?pre = Transactions l" "amm_parsed ?pre = decoded e (Transactions l)"
    "orderbook_parsed ?pre = decoded e (Transactions l)" "saved ?pre = []"
    by simp_all
  with tr res post have A: "\<exists>pre post.
       tr = pre @ CallSaveCheckpoint (new_checkpoint l d) # post \<and>
       attempted pre = Transactions l \<and>
       amm_parsed pre = decoded e (Transactions l) \<and>
       orderbook_parsed pre = decoded e (Transactions l) \<and>
       saved pre = [] \<and> list_all is_log post \<and>
       (db', r) =
         SaveCheckpoint e (fst (process_txs e db l (Transactions l))) (new_checkpoint l d)"
    by blast
  have B: "new_checkpoint l d =
       \<lparr>cp_LedgerIndex = LedgerIndex l, cp_LedgerHash = LedgerHash l,
        cp_CloseTime = LedgerTime l, cp_CloseTimeHuman = LedgerTime l + 946684800,
        cp_TransactionCount = TxnCount l, cp_ProcessingDurationMs = d\<rparr>"
    by (simp add: new_checkpoint_def)
  note W = processLedger_fresh_writes [OF guard run]
  note R = processLedger_replay [OF run]
  have sub: "set (snd (process_txs e db l (Transactions l))) \<subseteq> set tr"
    by (auto simp: tr)
  have txsub: "set (snd (process_tx e (fst (process_txs e db l txs1)) l tx)) \<subseteq> set tr"
    if "Transactions l = txs1 @ tx # txs2"
    using tx_events_in_ledger [of e db l txs1 tx txs2] sub that by auto
  have C1: "Transactions l = txs1 @ tx # txs2 \<and> jsonMarshal e tx = Inl er \<longrightarrow>
        Log ''Failed to marshal transaction: %v'' [ArgStr er] \<in> set tr"
    using txsub process_tx_marshal_fails [of e tx er "fst (process_txs e db l txs1)" l]
    by blast
  have C2: "Transactions l = txs1 @ tx # txs2 \<and> jsonMarshal e tx = Inr b \<and>
      jsonUnmarshal e b = Inl er \<longrightarrow>
        Log ''Failed to unmarshal transaction: %v'' [ArgStr er] \<in> set tr"
    using txsub process_tx_unmarshal_fails [of e tx b er "fst (process_txs e db l txs1)" l]
    by blast
  have C3: "(snd (ammParseTransaction e m (LedgerIndex l) (LedgerHash l)) = Some er \<longrightarrow>
           Log ''AMM parser error on tx %s: %v'' [ArgStr (Hash tx), ArgStr er] \<in> set tr) \<and>
        (ammParseTransaction e m (LedgerIndex l) (LedgerHash l) = (Some pool, None) \<and>
         snd (UpsertAMMPool e dk pool) = Some er \<longrightarrow>
           Log ''Failed to upsert AMM pool: %v'' [ArgStr er] \<in> set tr) \<and>
        (snd (orderbookParseTransaction e m (LedgerIndex l) (LedgerHash l)) = Some er \<longrightarrow>
           Log ''Orderbook parser error on tx %s: %v'' [ArgStr (Hash tx), ArgStr er]
             \<in> set tr) \<and>
        (orderbookParseTransaction e m (LedgerIndex l) (LedgerHash l) = (Some offer, None) \<and>
         snd (UpsertOffer e da offer) = Some er \<longrightarrow>
           Log ''Failed to upsert offer: %v'' [ArgStr er] \<in> set tr) \<and>
        (TransactionType tx = ''OfferCancel'' \<and> ParseOfferCancel e m = (account, seq, None) \<and>
         snd (CancelOffer e dob account seq (LedgerIndex l)) = Some er \<longrightarrow>
           Log ''Failed to cancel offer: %v'' [ArgStr er] \<in> set tr) \<and>
        (TransactionType tx = ''OfferCancel'' \<and>
         ParseOfferCancel e m = (account, seq, Some er) \<longrightarrow>
           cancel_step e dob l tx m =
             (dob, CallParseOfferCancel m #
                   logVerbose (verbose e) ''  OfferCancel parse error: %v'' [ArgStr er]) \<and>
           set (snd (cancel_step e dob l tx m)) \<subseteq> set tr)"
    if h: "Transactions l = txs1 @ tx # txs2 \<and> jsonMarshal e tx = Inr b \<and>
      jsonUnmarshal e b = Inr m \<and>
      dk = fst (process_txs e db l txs1) \<and> da = fst (amm_step e dk l tx m) \<and>
      dob = fst (orderbook_step e da l tx m)"
  proof -
    from h have split: "Transactions l = txs1 @ tx # txs2" and mb: "jsonMarshal e tx = Inr b"
      and um: "jsonUnmarshal e b = Inr m" and dk: "dk = fst (process_txs e db l txs1)"
      and da: "da = fst (amm_step e dk l tx m)" and dob: "dob = fst (orderbook_step e da l tx m)"
      by simp_all
    from process_tx_decoded [OF mb um, of dk l] da dob
    have ev: "snd (process_tx e dk l tx) =
       (logVerbose (verbose e) ''Processing tx %s (type: %s)''
          [ArgStr (Hash tx), ArgStr (TransactionType tx)] @ [CallMarshal tx]) @
       [CallUnmarshal b] @ snd (amm_step e dk l tx m) @ snd (orderbook_step e da l tx m) @
       snd (cancel_step e dob l tx m)"
      by simp
    from txsub [OF split] dk have "set (snd (process_tx e dk l tx)) \<subseteq> set tr" by simp
    with ev have s1: "set (snd (amm_step e dk l tx m)) \<subseteq> set tr"
      and s2: "set (snd (orderbook_step e da l tx m)) \<subseteq> set tr"
      and s3: "set (snd (cancel_step e dob l tx m)) \<subseteq> set tr"
      by auto
    show ?thesis
      using s1 s2 s3
        amm_step_logs [where e = e and l = l and m = m and d = dk and tx = tx]
        orderbook_step_logs [where e = e and l = l and m = m and d = da and tx = tx]
        cancel_step_logs [where e = e and l = l and m = m and d = dob and tx = tx]
      by blast
  qed
  from A B W R C1 C2 C3 show ?thesis by blast
qed

theorem failures_do_not_stop_ledger_witness:
  "GetCheckpoint toy_env toy_db0 (LedgerIndex toy_ledger9) = (None, None) \<and>
   Transactions toy_ledger9 =
     [] @ tx_of ''A'' ''AMMDeposit'' #
     [tx_of ''B'' ''OfferCreate'', tx_of ''C'' ''AMMCreate'', tx_of ''D'' ''OfferCancel''] \<and>
   Transactions toy_ledger9 =
     [tx_of ''A'' ''AMMDeposit''] @ tx_of ''B'' ''OfferCreate'' #
     [tx_of ''C'' ''AMMCreate'', tx_of ''D'' ''OfferCancel''] \<and>
   snd (ammParseTransaction toy_env ''AMMDeposit'' 9 ''H'') = Some ''malformed'' \<and>
   Log ''AMM parser error on tx %s: %v'' [ArgStr ''A'', ArgStr ''malformed'']
     \<in> set (snd (snd (processLedger toy_env toy_db0 toy_ledger9 1))) \<and>
   orderbookParseTransaction toy_env ''OfferCreate'' 9 ''H'' = (Some ''offer'', None) \<and>
   snd (UpsertOffer toy_env toy_db0 ''offer'') = Some ''disk full'' \<and>
   Log ''Failed to upsert offer: %v'' [ArgStr ''disk full'']
     \<in> set (snd (snd (processLedger toy_env toy_db0 toy_ledger9 1))) \<and>
   fst (snd (processLedger toy_env toy_db0 toy_ledger9 1)) = None \<and>
   fst (processLedger toy_env toy_db0 toy_ledger9 1) =
     \<lparr>toy_checkpoints = [new_checkpoint toy_ledger9 1, cp_at 7], toy_pools = [''XRP/USD''],
      toy_offers = [], toy_cancelled = [(''rAccount'', 7)]\<rparr> \<and>
   upserted_pools (snd (snd (processLedger toy_env toy_db0 toy_ledger9 1))) = [''XRP/USD''] \<and>
   upserted_offers (snd (snd (processLedger toy_env toy_db0 toy_ledger9 1))) = [''offer''] \<and>
   cancelled (snd (snd (processLedger toy_env toy_db0 toy_ledger9 1))) = [(''rAccount'', 7, 9)] \<and>
   (\<exists>pre post.
      snd (snd (processLedger toy_env toy_db0 toy_ledger9 1)) =
        pre @ CallSaveCheckpoint (new_checkpoint toy_ledger9 1) # post \<and>
      attempted pre = Transactions toy_ledger9 \<and>
      amm_parsed pre = [''AMMDeposit'', ''OfferCreate'', ''AMMCreate'', ''OfferCancel''] \<and>
      orderbook_parsed pre = [''AMMDeposit'', ''OfferCreate'', ''AMMCreate'', ''OfferCancel''] \<and>
      saved pre = [] \<and> list_all is_log post)"
proof -
  let ?tr = "snd (snd (processLedger toy_env toy_db0 toy_ledger9 1))"
  let ?A = "tx_of ''A'' ''AMMDeposit''" and ?B = "tx_of ''B'' ''OfferCreate''"
  let ?C = "tx_of ''C'' ''AMMCreate''" and ?D = "tx_of ''D'' ''OfferCancel''"
  have guard: "\<forall>cp. GetCheckpoint toy_env toy_db0 (LedgerIndex toy_ledger9) \<noteq> (Some cp, None)"
    and absent: "GetCheckpoint toy_env toy_db0 (LedgerIndex toy_ledger9) = (None, None)"
    by (simp_all add: toy_defs)
  have run: "processLedger toy_env toy_db0 toy_ledger9 1 =
      (fst (processLedger toy_env toy_db0 toy_ledger9 1),
       fst (snd (processLedger toy_env toy_db0 toy_ledger9 1)), ?tr)"
    by simp
  note T = failures_do_not_stop_ledger [OF guard run]
  have idx: "LedgerIndex toy_ledger9 = 9" "LedgerHash toy_ledger9 = ''H''"
    by (simp_all add: toy_defs)
  have dec: "decoded toy_env (Transactions toy_ledger9) =
      [''AMMDeposit'', ''OfferCreate'', ''AMMCreate'', ''OfferCancel'']"
    by (simp add: decoded_def toy_defs)
  have s1: "Transactions toy_ledger9 = [] @ ?A # [?B, ?C, ?D]"
    and s2: "Transactions toy_ledger9 = [?A] @ ?B # [?C, ?D]"
    by (simp_all add: toy_defs)
  have mA: "jsonMarshal toy_env ?A = Inr ''AMMDeposit''"
    and mB: "jsonMarshal toy_env ?B = Inr ''OfferCreate''"
    and uA: "jsonUnmarshal toy_env ''AMMDeposit'' = Inr ''AMMDeposit''"
    and uB: "jsonUnmarshal toy_env ''OfferCreate'' = Inr ''OfferCreate''"
    by (simp_all add: toy_defs)
  have pA: "snd (ammParseTransaction toy_env ''AMMDeposit'' 9 ''H'') = Some ''malformed''"
    and pB: "orderbookParseTransaction toy_env ''OfferCreate'' 9 ''H'' = (Some ''offer'', None)"
    and wB: "snd (UpsertOffer toy_env db ''offer'') = Some ''disk full''" for db
    by (simp_all add: toy_defs)
  have hA: "Transactions toy_ledger9 = [] @ ?A # [?B, ?C, ?D] \<and>
      jsonMarshal toy_env ?A = Inr ''AMMDeposit'' \<and>
      jsonUnmarshal toy_env ''AMMDeposit'' = Inr ''AMMDeposit'' \<and>
      fst (process_txs toy_env toy_db0 toy_ledger9 []) =
        fst (process_txs toy_env toy_db0 toy_ledger9 []) \<and>
      fst (amm_step toy_env (fst (process_txs toy_env toy_db0 toy_ledger9 []))
             toy_ledger9 ?A ''AMMDeposit'') =
        fst (amm_step toy_env (fst (process_txs toy_env toy_db0 toy_ledger9 []))
             toy_ledger9 ?A ''AMMDeposit'') \<and>
      fst (orderbook_step toy_env
             (fst (amm_step toy_env (fst (process_txs toy_env toy_db0 toy_ledger9 []))
                toy_ledger9 ?A ''AMMDeposit'')) toy_ledger9 ?A ''AMMDeposit'') =
        fst (orderbook_step toy_env
             (fst (amm_step toy_env (fst (process_txs toy_env toy_db0 toy_ledger9 []))
                toy_ledger9 ?A ''AMMDeposit'')) toy_ledger9 ?A ''AMMDeposit'')"
    using s1 mA uA by simp
  have l1: "Log ''AMM parser error on tx %s: %v'' [ArgStr ''A'', ArgStr ''malformed''] \<in> set ?tr"
    using T [THEN conjunct2, THEN conjunct2, THEN conjunct2, THEN conjunct2, THEN conjunct2,
        THEN conjunct2, THEN conjunct2, THEN conjunct2, THEN mp, OF hA, THEN conjunct1]
      pA
    by (simp add: idx tx_of_def)
  have hB: "Transactions toy_ledger9 = [?A] @ ?B # [?C, ?D] \<and>
      jsonMarshal toy_env ?B = Inr ''OfferCreate'' \<and>
      jsonUnmarshal toy_env ''OfferCreate'' = Inr ''OfferCreate'' \<and>
      fst (process_txs toy_env toy_db0 toy_ledger9 [?A]) =
        fst (process_txs toy_env toy_db0 toy_ledger9 [?A]) \<and>
      fst (amm_step toy_env (fst (process_txs toy_env toy_db0 toy_ledger9 [?A]))
             toy_ledger9 ?B ''OfferCreate'') =
        fst (amm_step toy_env (fst (process_txs toy_env toy_db0 toy_ledger9 [?A]))
             toy_ledger9 ?B ''OfferCreate'') \<and>
      fst (orderbook_step toy_env
             (fst (amm_step toy_env (fst (process_txs toy_env toy_db0 toy_ledger9 [?A]))
                toy_ledger9 ?B ''OfferCreate'')) toy_ledger9 ?B ''OfferCreate'') =
        fst (orderbook_step toy_env
             (fst (amm_step toy_env (fst (process_txs toy_env toy_db0 toy_ledger9 [?A]))
                toy_ledger9 ?B ''OfferCreate'')) toy_ledger9 ?B ''OfferCreate'')"
    using s2 mB uB by simp
  have l2: "Log ''Failed to upsert offer: %v'' [ArgStr ''disk full''] \<in> set ?tr"
    using T [THEN conjunct2, THEN conjunct2, THEN conjunct2, THEN conjunct2, THEN conjunct2,
        THEN conjunct2, THEN conjunct2, THEN conjunct2, THEN mp, OF hB, THEN conjunct2,
        THEN conjunct2, THEN conjunct2, THEN conjunct1, of "''offer''" "''disk full''"]
      pB wB
    by (simp add: idx)
  have r: "fst (snd (processLedger toy_env toy_db0 toy_ledger9 1)) = None"
    by (simp add: toy_defs run_defs)
  have d: "fst (processLedger toy_env toy_db0 toy_ledger9 1) =
     \<lparr>toy_checkpoints = [new_checkpoint toy_ledger9 1, cp_at 7], toy_pools = [''XRP/USD''],
      toy_offers = [], toy_cancelled = [(''rAccount'', 7)]\<rparr>"
    by (simp add: toy_defs run_defs)
  have pp: "parsed_pools toy_env toy_ledger9 = [''XRP/USD'']"
    and po: "parsed_offers toy_env toy_ledger9 = [''offer'']"
    and pc: "parsed_cancels toy_env toy_ledger9 = [(''rAccount'', 7, 9)]"
    by (simp_all add: parsed_pools_def parsed_offers_def parsed_cancels_def decoded_def toy_defs)
  have w: "upserted_pools ?tr = parsed_pools toy_env toy_ledger9"
    "upserted_offers ?tr = parsed_offers toy_env toy_ledger9"
    "cancelled ?tr = parsed_cancels toy_env toy_ledger9"
    using T [THEN conjunct2, THEN conjunct2, THEN conjunct1]
      T [THEN conjunct2, THEN conjunct2, THEN conjunct2, THEN conjunct1]
      T [THEN conjunct2, THEN conjunct2, THEN conjunct2, THEN conjunct2, THEN conjunct1]
    by - assumption+
  from T [THEN conjunct1] have "\<exists>pre post.
      ?tr = pre @ CallSaveCheckpoint (new_checkpoint toy_ledger9 1) # post \<and>
      attempted pre = Transactions toy_ledger9 \<and>
      amm_parsed pre = [''AMMDeposit'', ''OfferCreate'', ''AMMCreate'', ''OfferCancel''] \<and>
      orderbook_parsed pre = [''AMMDeposit'', ''OfferCreate'', ''AMMCreate'', ''OfferCancel''] \<and>
      saved pre = [] \<and> list_all is_log post"
    unfolding dec by blast
  with absent s1 s2 pA pB wB [of toy_db0] l1 l2 r d w pp po pc show ?thesis by simp
qed

text \<open>
  Claim C1, as stated, covers every ledger whose index has a checkpoint in the store.
  The guard of line 246 skips the ledger only when the look-up returns no error. With
  the checkpoint of ledger 7 in the store and a look-up that fails, \<open>processLedger\<close>
  takes up the transaction of ledger 7, upserts its pool and writes a second checkpoint.
\<close>

theorem duplicate_guard_is_noop_counterexample:
  "cp_at 7 \<in> set (toy_checkpoints toy_db0) \<and>
   cp_LedgerIndex (cp_at 7) = LedgerIndex (ledger_at 7 [tx_of ''T'' ''AMMCreate'']) \<and>
   GetCheckpoint toy_env_down toy_db0 (LedgerIndex (ledger_at 7 [tx_of ''T'' ''AMMCreate''])) =
     (None, Some ''connection lost'') \<and>
   fst (snd (processLedger toy_env_down toy_db0 (ledger_at 7 [tx_of ''T'' ''AMMCreate'']) 3)) =
     None \<and>
   attempted (snd (snd (processLedger toy_env_down toy_db0
      (ledger_at 7 [tx_of ''T'' ''AMMCreate'']) 3))) = [tx_of ''T'' ''AMMCreate''] \<and>
   amm_parsed (snd (snd (processLedger toy_env_down toy_db0
      (ledger_at 7 [tx_of ''T'' ''AMMCreate'']) 3))) = [''AMMCreate''] \<and>
   upserted_pools (snd (snd (processLedger toy_env_down toy_db0
      (ledger_at 7 [tx_of ''T'' ''AMMCreate'']) 3))) = [''XRP/USD''] \<and>
   saved (snd (snd (processLedger toy_env_down toy_db0
      (ledger_at 7 [tx_of ''T'' ''AMMCreate'']) 3))) =
     [new_checkpoint (ledger_at 7 [tx_of ''T'' ''AMMCreate'']) 3] \<and>
   fst (processLedger toy_env_down toy_db0 (ledger_at 7 [tx_of ''T'' ''AMMCreate'']) 3) =
     \<lparr>toy_checkpoints = [new_checkpoint (ledger_at 7 [tx_of ''T'' ''AMMCreate'']) 3, cp_at 7],
      toy_pools = [''XRP/USD''], toy_offers = [], toy_cancelled = []\<rparr> \<and>
   fst (processLedger toy_env_down toy_db0 (ledger_at 7 [tx_of ''T'' ''AMMCreate'']) 3) \<noteq>
     toy_db0"
  by (simp add: toy_defs run_defs upserted_pools_def)

text \<open>
  Claim C1, amended. When the look-up succeeds and reports a checkpoint for the index of
  the ledger, \<open>processLedger\<close> returns nil and the store unchanged; its trace is the
  look-up and the verbose line, so no transaction is taken up or parsed, nothing is
  upserted or cancelled and no checkpoint is written; and processing the ledger again
  gives the same. The second part covers a first run on a ledger not yet processed: with a store
  that finds a checkpoint it has written, a run that returned nil makes the next run of
  the same ledger a no-op on the store the first one left.
\<close>

theorem duplicate_guard_is_noop:
  "(GetCheckpoint e db (LedgerIndex l) = (Some cp, None) \<longrightarrow>
      processLedger e db l d =
        (db, None,
         CallGetCheckpoint (LedgerIndex l) #
         logVerbose (verbose e) ''Skipping already processed ledger %d''
           [ArgWord (LedgerIndex l)]) \<and>
      attempted (snd (snd (processLedger e db l d))) = [] \<and>
      amm_parsed (snd (snd (processLedger e db l d))) = [] \<and>
      orderbook_parsed (snd (snd (processLedger e db l d))) = [] \<and>
      saved (snd (snd (processLedger e db l d))) = [] \<and>
      filter (\<lambda>ev. \<not> is_log ev) (snd (snd (processLedger e db l d))) =
        [CallGetCheckpoint (LedgerIndex l)] \<and>
      processLedger e (fst (processLedger e db l d)) l d' = processLedger e db l d) \<and>
   ((\<forall>s c s'. SaveCheckpoint e s c = (s', None) \<longrightarrow>
        (\<exists>c'. GetCheckpoint e s' (cp_LedgerIndex c) = (Some c', None))) \<and>
    processLedger e db0 l0 d0 = (db1, None, tr1) \<longrightarrow>
      processLedger e db1 l0 d1 =
        (db1, None,
         CallGetCheckpoint (LedgerIndex l0) #
         logVerbose (verbose e) ''Skipping already processed ledger %d''
           [ArgWord (LedgerIndex l0)]))"
proof (intro conjI impI)
  assume "(\<forall>s c s'. SaveCheckpoint e s c = (s', None) \<longrightarrow>
        (\<exists>c'. GetCheckpoint e s' (cp_LedgerIndex c) = (Some c', None))) \<and>
    processLedger e db0 l0 d0 = (db1, None, tr1)"
  then have contract: "\<And>s c s'. SaveCheckpoint e s c = (s', None) \<Longrightarrow>
        \<exists>c'. GetCheckpoint e s' (cp_LedgerIndex c) = (Some c', None)"
    and run: "processLedger e db0 l0 d0 = (db1, None, tr1)"
    by blast+
  from processLedger_nil_saved [OF run]
  have "\<exists>c'. GetCheckpoint e db1 (LedgerIndex l0) = (Some c', None)"
  proof
    assume "\<exists>cp. GetCheckpoint e db0 (LedgerIndex l0) = (Some cp, None) \<and> db1 = db0"
    then show ?thesis by blast
  next
    assume "\<exists>s. SaveCheckpoint e s (new_checkpoint l0 d0) = (db1, None)"
    then obtain s where "SaveCheckpoint e s (new_checkpoint l0 d0) = (db1, None)" ..
    from contract [OF this] show ?thesis by (simp add: new_checkpoint_def)
  qed
  then show "processLedger e db1 l0 d1 =
        (db1, None,
         CallGetCheckpoint (LedgerIndex l0) #
         logVerbose (verbose e) ''Skipping already processed ledger %d''
           [ArgWord (LedgerIndex l0)])"
    by (auto simp: processLedger_skip)
qed (simp_all add: processLedger_def is_log_def logVerbose_def)

theorem duplicate_guard_is_noop_witness:
  "GetCheckpoint toy_env toy_db0 (LedgerIndex (ledger_at 7 [tx_of ''T'' ''AMMCreate''])) =
     (Some (cp_at 7), None) \<and>
   processLedger toy_env toy_db0 (ledger_at 7 [tx_of ''T'' ''AMMCreate'']) 1 =
     (toy_db0, None,
      [CallGetCheckpoint 7, Log ''Skipping already processed ledger %d'' [ArgWord 7]]) \<and>
   processLedger toy_env (fst (processLedger toy_env toy_db0 toy_ledger9 1)) toy_ledger9 2 =
     (fst (processLedger toy_env toy_db0 toy_ledger9 1), None,
      [CallGetCheckpoint 9, Log ''Skipping already processed ledger %d'' [ArgWord 9]])"
proof -
  have found: "GetCheckpoint toy_env toy_db0 (LedgerIndex (ledger_at 7 [tx_of ''T'' ''AMMCreate''])) =
     (Some (cp_at 7), None)"
    by (simp add: toy_defs)
  have contract: "\<forall>s c s'. SaveCheckpoint toy_env s c = (s', None) \<longrightarrow>
        (\<exists>c'. GetCheckpoint toy_env s' (cp_LedgerIndex c) = (Some c', None))"
    by (auto simp: toy_defs)
  have run: "processLedger toy_env toy_db0 toy_ledger9 1 =
      (fst (processLedger toy_env toy_db0 toy_ledger9 1), None,
       snd (snd (processLedger toy_env toy_db0 toy_ledger9 1)))"
    by (simp add: toy_defs run_defs)
  have a: "processLedger toy_env toy_db0 (ledger_at 7 [tx_of ''T'' ''AMMCreate'']) 1 =
     (toy_db0, None,
      CallGetCheckpoint (LedgerIndex (ledger_at 7 [tx_of ''T'' ''AMMCreate''])) #
      logVerbose (verbose toy_env) ''Skipping already processed ledger %d''
        [ArgWord (LedgerIndex (ledger_at 7 [tx_of ''T'' ''AMMCreate'']))])"
    using duplicate_guard_is_noop [THEN conjunct1, THEN mp, OF found, THEN conjunct1] .
  have b: "processLedger toy_env (fst (processLedger toy_env toy_db0 toy_ledger9 1)) toy_ledger9 2 =
     (fst (processLedger toy_env toy_db0 toy_ledger9 1), None,
      CallGetCheckpoint (LedgerIndex toy_ledger9) #
      logVerbose (verbose toy_env) ''Skipping already processed ledger %d''
        [ArgWord (LedgerIndex toy_ledger9)])"
    using duplicate_guard_is_noop [THEN conjunct2, THEN mp, OF conjI, OF contract run] .
  have v: "verbose toy_env" "LedgerIndex toy_ledger9 = 9"
    "LedgerIndex (ledger_at 7 [tx_of ''T'' ''AMMCreate'']) = 7"
    by (simp_all add: toy_defs)
  from found a b show ?thesis
    by (simp add: v logVerbose_def)
qed

text \<open>
  Claim C9. When the look-up of the duplicate guard returns an error, whatever pointer
  comes with it, the ledger is not skipped: \<open>processLedger\<close> takes up every
  transaction, hands the decoded ones to the parsers, upserts every pool and every offer
  the parsers yield and makes every cancellation that parses, in order, and writes the
  checkpoint of the ledger; the store returned is the store after these writes.
\<close>

theorem lookup_error_fails_open:
  assumes err: "GetCheckpoint e db (LedgerIndex l) = (x, Some er)"
    and run: "processLedger e db l d = (db', r, tr)"
  shows "(db', r, tr) =
           (fst (process_body e db l d), fst (snd (process_body e db l d)),
            CallGetCheckpoint (LedgerIndex l) # snd (snd (process_body e db l d))) \<and>
         attempted tr = Transactions l \<and>
         amm_parsed tr = decoded e (Transactions l) \<and>
         orderbook_parsed tr = decoded e (Transactions l) \<and>
         saved tr = [new_checkpoint l d] \<and>
         (db', r) =
           SaveCheckpoint e (fst (process_txs e db l (Transactions l))) (new_checkpoint l d) \<and>
         upserted_pools tr = parsed_pools e l \<and>
         upserted_offers tr = parsed_offers e l \<and>
         cancelled tr = parsed_cancels e l \<and>
         db' = replay e db tr \<and>
         new_checkpoint l d =
           \<lparr>cp_LedgerIndex = LedgerIndex l, cp_LedgerHash = LedgerHash l,
            cp_CloseTime = LedgerTime l, cp_CloseTimeHuman = LedgerTime l + 946684800,
            cp_TransactionCount = TxnCount l, cp_ProcessingDurationMs = d\<rparr>"
proof -
  from err have guard: "\<forall>cp. GetCheckpoint e db (LedgerIndex l) \<noteq> (Some cp, None)"
    by simp
  obtain post where body: "process_body e db l d =
     (fst (SaveCheckpoint e (fst (process_txs e db l (Transactions l))) (new_checkpoint l d)),
      snd (SaveCheckpoint e (fst (process_txs e db l (Transactions l))) (new_checkpoint l d)),
      (continuity_check e db l @
       Log ''Processing ledger %d (hash: %s, txns: %d)''
         [ArgWord (LedgerIndex l), ArgStr (LedgerHash l), ArgInt (TxnCount l)] #
       snd (process_txs e db l (Transactions l))) @
      CallSaveCheckpoint (new_checkpoint l d) # post)"
    and post: "list_all is_log post"
    using process_body_shape [of e db l d] by auto
  have sp: "saved post = []"
    using post by (induction post) (auto simp: is_log_def split: event.splits)
  from processLedger_fresh [OF guard, of d] run
  have eq: "(db', r, tr) =
           (fst (process_body e db l d), fst (snd (process_body e db l d)),
            CallGetCheckpoint (LedgerIndex l) # snd (snd (process_body e db l d)))"
    by simp
  have ap: "attempted post = []" "amm_parsed post = []" "orderbook_parsed post = []"
    using post by (induction post; auto simp: is_log_def split: event.splits)+
  from eq body sp ap have old: "(db', r, tr) =
           (fst (process_body e db l d), fst (snd (process_body e db l d)),
            CallGetCheckpoint (LedgerIndex l) # snd (snd (process_body e db l d))) \<and>
         attempted tr = Transactions l \<and>
         amm_parsed tr = decoded e (Transactions l) \<and>
         orderbook_parsed tr = decoded e (Transactions l) \<and>
         saved tr = [new_checkpoint l d] \<and>
         (db', r) =
           SaveCheckpoint e (fst (process_txs e db l (Transactions l))) (new_checkpoint l d)"
    by simp
  have cp: "new_checkpoint l d =
           \<lparr>cp_LedgerIndex = LedgerIndex l, cp_LedgerHash = LedgerHash l,
            cp_CloseTime = LedgerTime l, cp_CloseTimeHuman = LedgerTime l + 946684800,
            cp_TransactionCount = TxnCount l, cp_ProcessingDurationMs = d\<rparr>"
    by (simp add: new_checkpoint_def)
  from old processLedger_fresh_writes [OF guard run] processLedger_replay [OF run] cp
  show ?thesis by blast
qed

theorem lookup_error_fails_open_witness:
  "GetCheckpoint toy_env_down toy_db0 (LedgerIndex (ledger_at 7 [tx_of ''T'' ''AMMCreate''])) =
     (None, Some ''connection lost'') \<and>
   cp_at 7 \<in> set (toy_checkpoints toy_db0) \<and>
   attempted (snd (snd (processLedger toy_env_down toy_db0
      (ledger_at 7 [tx_of ''T'' ''AMMCreate'']) 3))) = [tx_of ''T'' ''AMMCreate''] \<and>
   amm_parsed (snd (snd (processLedger toy_env_down toy_db0
      (ledger_at 7 [tx_of ''T'' ''AMMCreate'']) 3))) = [''AMMCreate''] \<and>
   upserted_pools (snd (snd (processLedger toy_env_down toy_db0
      (ledger_at 7 [tx_of ''T'' ''AMMCreate'']) 3))) = [''XRP/USD''] \<and>
   upserted_offers (snd (snd (processLedger toy_env_down toy_db0
      (ledger_at 7 [tx_of ''T'' ''AMMCreate'']) 3))) = [] \<and>
   saved (snd (snd (processLedger toy_env_down toy_db0
      (ledger_at 7 [tx_of ''T'' ''AMMCreate'']) 3))) =
     [new_checkpoint (ledger_at 7 [tx_of ''T'' ''AMMCreate'']) 3] \<and>
   fst (processLedger toy_env_down toy_db0 (ledger_at 7 [tx_of ''T'' ''AMMCreate'']) 3) =
     \<lparr>toy_checkpoints = [new_checkpoint (ledger_at 7 [tx_of ''T'' ''AMMCreate'']) 3, cp_at 7],
      toy_pools = [''XRP/USD''], toy_offers = [], toy_cancelled = []\<rparr>"
proof -
  let ?l = "ledger_at 7 [tx_of ''T'' ''AMMCreate'']"
  have err: "GetCheckpoint toy_env_down toy_db0 (LedgerIndex ?l) = (None, Some ''connection lost'')"
    by (simp add: toy_defs)
  have cp: "cp_at 7 \<in> set (toy_checkpoints toy_db0)"
    by (simp add: toy_defs)
  have run: "processLedger toy_env_down toy_db0 ?l 3 =
      (fst (processLedger toy_env_down toy_db0 ?l 3),
       fst (snd (processLedger toy_env_down toy_db0 ?l 3)),
       snd (snd (processLedger toy_env_down toy_db0 ?l 3)))"
    by simp
  have dec: "decoded toy_env_down (Transactions ?l) = [''AMMCreate'']"
    and dec': "decoded toy_env_down [tx_of ''T'' ''AMMCreate''] = [''AMMCreate'']"
    and txs: "Transactions ?l = [tx_of ''T'' ''AMMCreate'']"
    by (simp_all add: decoded_def toy_defs)
  have pp: "parsed_pools toy_env_down ?l = [''XRP/USD'']"
    and po: "parsed_offers toy_env_down ?l = []"
    by (simp_all add: parsed_pools_def parsed_offers_def decoded_def toy_defs)
  have d: "fst (processLedger toy_env_down toy_db0 ?l 3) =
     \<lparr>toy_checkpoints = [new_checkpoint ?l 3, cp_at 7],
      toy_pools = [''XRP/USD''], toy_offers = [], toy_cancelled = []\<rparr>"
    by (simp add: toy_defs run_defs)
  from lookup_error_fails_open [OF err run]
  have "attempted (snd (snd (processLedger toy_env_down toy_db0 ?l 3))) = Transactions ?l \<and>
     amm_parsed (snd (snd (processLedger toy_env_down toy_db0 ?l 3))) =
       decoded toy_env_down (Transactions ?l) \<and>
     upserted_pools (snd (snd (processLedger toy_env_down toy_db0 ?l 3))) =
       parsed_pools toy_env_down ?l \<and>
     upserted_offers (snd (snd (processLedger toy_env_down toy_db0 ?l 3))) =
       parsed_offers toy_env_down ?l \<and>
     saved (snd (snd (processLedger toy_env_down toy_db0 ?l 3))) = [new_checkpoint ?l 3]"
    by blast
  with err cp d show ?thesis by (simp add: dec dec' txs pp po)
qed

section \<open>The continuity check\<close>

lemma steps_GetCheckpoint [simp]:
  "amm_step (e\<lparr>GetCheckpoint := g\<rparr>) db l tx m = amm_step e db l tx m"
  "orderbook_step (e\<lparr>GetCheckpoint := g\<rparr>) db l tx m = orderbook_step e db l tx m"
  "cancel_step (e\<lparr>GetCheckpoint := g\<rparr>) db l tx m = cancel_step e db l tx m"
  by (simp_all add: amm_step_def orderbook_step_def cancel_step_def
      cong: prod.case_cong option.case_cong if_cong)

lemma process_tx_GetCheckpoint [simp]:
  "process_tx (e\<lparr>GetCheckpoint := g\<rparr>) db l tx = process_tx e db l tx"
  by (simp add: process_tx_def cong: sum.case_cong)

lemma process_txs_GetCheckpoint [simp]:
  "process_txs (e\<lparr>GetCheckpoint := g\<rparr>) db l txs = process_txs e db l txs"
  by (induction txs arbitrary: db) simp_all

text \<open>
  Claim C8, as stated, says that a missing checkpoint of the preceding ledger is logged.
  It is not: in verbose mode, for ledger 5 on a store with no checkpoint for ledger 4,
  the continuity check writes no line, and the whole trace of \<open>processLedger\<close> holds
  the processing line and the final line only.
\<close>

theorem continuity_check_never_blocks_counterexample:
  "1 < LedgerIndex (ledger_at 5 []) \<and>
   GetCheckpoint toy_env toy_db0 (LedgerIndex (ledger_at 5 []) - 1) = (None, None) \<and>
   verbose toy_env \<and>
   filter is_log (continuity_check toy_env toy_db0 (ledger_at 5 [])) = [] \<and>
   snd (snd (processLedger toy_env toy_db0 (ledger_at 5 []) 1)) =
     [CallGetCheckpoint 5, CallGetCheckpoint 4,
      Log ''Processing ledger %d (hash: %s, txns: %d)'' [ArgWord 5, ArgStr ''H'', ArgInt 0],
      CallSaveCheckpoint (new_checkpoint (ledger_at 5 []) 1),
      Log ''Ledger %d indexed in %v'' [ArgWord 5, ArgInt 1]]"
  by (simp add: toy_defs run_defs is_log_def)

text \<open>
  Claim C8, amended. For a ledger with index above 1 the checkpoint of the preceding
  index is looked up. When the look-up finds none (none, or an error), the continuity
  check is the look-up alone, without a log line; when it finds one, the check is the
  look-up and, in verbose mode only, the line that the ledger follows it; for an index
  of at most 1 there is no look-up. In every case a ledger that passes the duplicate
  guard is processed as usual: every transaction is taken up and the checkpoint is
  written. The store and the error returned do not depend on what the look-up answers
  for the preceding ledger.
\<close>

theorem continuity_check_never_blocks:
  "(1 < LedgerIndex l \<and>
    (\<forall>p. GetCheckpoint e db (LedgerIndex l - 1) \<noteq> (Some p, None)) \<and>
    (\<forall>cp. GetCheckpoint e db (LedgerIndex l) \<noteq> (Some cp, None)) \<longrightarrow>
      continuity_check e db l = [CallGetCheckpoint (LedgerIndex l - 1)] \<and>
      (\<exists>post. processLedger e db l d =
         (fst (SaveCheckpoint e (fst (process_txs e db l (Transactions l))) (new_checkpoint l d)),
          snd (SaveCheckpoint e (fst (process_txs e db l (Transactions l))) (new_checkpoint l d)),
          CallGetCheckpoint (LedgerIndex l) # CallGetCheckpoint (LedgerIndex l - 1) #
          Log ''Processing ledger %d (hash: %s, txns: %d)''
            [ArgWord (LedgerIndex l), ArgStr (LedgerHash l), ArgInt (TxnCount l)] #
          snd (process_txs e db l (Transactions l)) @
          CallSaveCheckpoint (new_checkpoint l d) # post) \<and>
         list_all is_log post) \<and>
      attempted (snd (snd (processLedger e db l d))) = Transactions l \<and>
      ((\<forall>cp. g db (LedgerIndex l) \<noteq> (Some cp, None)) \<longrightarrow>
         fst (processLedger (e\<lparr>GetCheckpoint := g\<rparr>) db l d) = fst (processLedger e db l d) \<and>
         fst (snd (processLedger (e\<lparr>GetCheckpoint := g\<rparr>) db l d)) =
           fst (snd (processLedger e db l d)))) \<and>
   (1 < LedgerIndex l \<and> GetCheckpoint e db (LedgerIndex l - 1) = (Some p, None) \<longrightarrow>
      continuity_check e db l =
        CallGetCheckpoint (LedgerIndex l - 1) #
        (if verbose e
         then [Log ''Verified sequential ledger: %d follows %d''
                 [ArgWord (LedgerIndex l), ArgWord (cp_LedgerIndex p)]]
         else [])) \<and>
   (\<not> 1 < LedgerIndex l \<longrightarrow> continuity_check e db l = []) \<and>
   ((\<forall>cp. GetCheckpoint e db (LedgerIndex l) \<noteq> (Some cp, None)) \<longrightarrow>
      (\<exists>post. processLedger e db l d =
         (fst (SaveCheckpoint e (fst (process_txs e db l (Transactions l))) (new_checkpoint l d)),
          snd (SaveCheckpoint e (fst (process_txs e db l (Transactions l))) (new_checkpoint l d)),
          CallGetCheckpoint (LedgerIndex l) # continuity_check e db l @
          Log ''Processing ledger %d (hash: %s, txns: %d)''
            [ArgWord (LedgerIndex l), ArgStr (LedgerHash l), ArgInt (TxnCount l)] #
          snd (process_txs e db l (Transactions l)) @
          CallSaveCheckpoint (new_checkpoint l d) # post) \<and>
         list_all is_log post) \<and>
      attempted (snd (snd (processLedger e db l d))) = Transactions l \<and>
      saved (snd (snd (processLedger e db l d))) = [new_checkpoint l d])"
proof -
  obtain post where body: "process_body e db l d =
     (fst (SaveCheckpoint e (fst (process_txs e db l (Transactions l))) (new_checkpoint l d)),
      snd (SaveCheckpoint e (fst (process_txs e db l (Transactions l))) (new_checkpoint l d)),
      (continuity_check e db l @
       Log ''Processing ledger %d (hash: %s, txns: %d)''
         [ArgWord (LedgerIndex l), ArgStr (LedgerHash l), ArgInt (TxnCount l)] #
       snd (process_txs e db l (Transactions l))) @
      CallSaveCheckpoint (new_checkpoint l d) # post)"
    and post: "list_all is_log post"
    using process_body_shape [of e db l d] by auto
  have ap: "attempted post = []" "saved post = []"
    using post by (induction post; auto simp: is_log_def split: event.splits)+
  have run: "processLedger e db l d =
        (fst (SaveCheckpoint e (fst (process_txs e db l (Transactions l))) (new_checkpoint l d)),
         snd (SaveCheckpoint e (fst (process_txs e db l (Transactions l))) (new_checkpoint l d)),
         CallGetCheckpoint (LedgerIndex l) # continuity_check e db l @
         Log ''Processing ledger %d (hash: %s, txns: %d)''
           [ArgWord (LedgerIndex l), ArgStr (LedgerHash l), ArgInt (TxnCount l)] #
         snd (process_txs e db l (Transactions l)) @
         CallSaveCheckpoint (new_checkpoint l d) # post)"
    if guard: "\<forall>cp. GetCheckpoint e db (LedgerIndex l) \<noteq> (Some cp, None)"
    using processLedger_fresh [OF guard, of d] body by simp
  have att: "attempted (snd (snd (processLedger e db l d))) = Transactions l"
    and sav: "saved (snd (snd (processLedger e db l d))) = [new_checkpoint l d]"
    if guard: "\<forall>cp. GetCheckpoint e db (LedgerIndex l) \<noteq> (Some cp, None)"
    by (simp_all add: run [OF guard] ap)
  have cc: "continuity_check e db l = [CallGetCheckpoint (LedgerIndex l - 1)]"
    if "1 < LedgerIndex l"
      and "\<forall>p. GetCheckpoint e db (LedgerIndex l - 1) \<noteq> (Some p, None)"
    using that
    by (cases "GetCheckpoint e db (LedgerIndex l - 1)")
       (auto simp: continuity_check_def split: option.splits)
  have ind: "fst (processLedger (e\<lparr>GetCheckpoint := g\<rparr>) db l d) = fst (processLedger e db l d) \<and>
        fst (snd (processLedger (e\<lparr>GetCheckpoint := g\<rparr>) db l d)) =
          fst (snd (processLedger e db l d))"
    if guard: "\<forall>cp. GetCheckpoint e db (LedgerIndex l) \<noteq> (Some cp, None)"
      and g: "\<forall>cp. g db (LedgerIndex l) \<noteq> (Some cp, None)"
  proof -
    from g have guard': "\<forall>cp. GetCheckpoint (e\<lparr>GetCheckpoint := g\<rparr>) db (LedgerIndex l) \<noteq>
        (Some cp, None)"
      by simp
    from processLedger_fresh [OF guard', of d]
      process_body_shape [of "e\<lparr>GetCheckpoint := g\<rparr>" db l d] run [OF guard]
    show ?thesis by auto
  qed
  have a: "1 < LedgerIndex l \<and>
    (\<forall>p. GetCheckpoint e db (LedgerIndex l - 1) \<noteq> (Some p, None)) \<and>
    (\<forall>cp. GetCheckpoint e db (LedgerIndex l) \<noteq> (Some cp, None)) \<longrightarrow>
      continuity_check e db l = [CallGetCheckpoint (LedgerIndex l - 1)] \<and>
      (\<exists>post. processLedger e db l d =
         (fst (SaveCheckpoint e (fst (process_txs e db l (Transactions l))) (new_checkpoint l d)),
          snd (SaveCheckpoint e (fst (process_txs e db l (Transactions l))) (new_checkpoint l d)),
          CallGetCheckpoint (LedgerIndex l) # CallGetCheckpoint (LedgerIndex l - 1) #
          Log ''Processing ledger %d (hash: %s, txns: %d)''
            [ArgWord (LedgerIndex l), ArgStr (LedgerHash l), ArgInt (TxnCount l)] #
          snd (process_txs e db l (Transactions l)) @
          CallSaveCheckpoint (new_checkpoint l d) # post) \<and>
         list_all is_log post) \<and>
      attempted (snd (snd (processLedger e db l d))) = Transactions l \<and>
      ((\<forall>cp. g db (LedgerIndex l) \<noteq> (Some cp, None)) \<longrightarrow>
         fst (processLedger (e\<lparr>GetCheckpoint := g\<rparr>) db l d) = fst (processLedger e db l d) \<and>
         fst (snd (processLedger (e\<lparr>GetCheckpoint := g\<rparr>) db l d)) =
           fst (snd (processLedger e db l d)))"
  proof (intro impI, elim conjE)
    assume idx: "1 < LedgerIndex l"
      and absent: "\<forall>p. GetCheckpoint e db (LedgerIndex l - 1) \<noteq> (Some p, None)"
      and guard: "\<forall>cp. GetCheckpoint e db (LedgerIndex l) \<noteq> (Some cp, None)"
    from run [OF guard] cc [OF idx absent]
    have "processLedger e db l d =
         (fst (SaveCheckpoint e (fst (process_txs e db l (Transactions l))) (new_checkpoint l d)),
          snd (SaveCheckpoint e (fst (process_txs e db l (Transactions l))) (new_checkpoint l d)),
          CallGetCheckpoint (LedgerIndex l) # CallGetCheckpoint (LedgerIndex l - 1) #
          Log ''Processing ledger %d (hash: %s, txns: %d)''
            [ArgWord (LedgerIndex l), ArgStr (LedgerHash l), ArgInt (TxnCount l)] #
          snd (process_txs e db l (Transactions l)) @
          CallSaveCheckpoint (new_checkpoint l d) # post)"
      by simp
    with cc [OF idx absent] post att [OF guard] ind [OF guard]
    show "continuity_check e db l = [CallGetCheckpoint (LedgerIndex l - 1)] \<and>
      (\<exists>post. processLedger e db l d =
         (fst (SaveCheckpoint e (fst (process_txs e db l (Transactions l))) (new_checkpoint l d)),
          snd (SaveCheckpoint e (fst (process_txs e db l (Transactions l))) (new_checkpoint l d)),
          CallGetCheckpoint (LedgerIndex l) # CallGetCheckpoint (LedgerIndex l - 1) #
          Log ''Processing ledger %d (hash: %s, txns: %d)''
            [ArgWord (LedgerIndex l), ArgStr (LedgerHash l), ArgInt (TxnCount l)] #
          snd (process_txs e db l (Transactions l)) @
          CallSaveCheckpoint (new_checkpoint l d) # post) \<and>
         list_all is_log post) \<and>
      attempted (snd (snd (processLedger e db l d))) = Transactions l \<and>
      ((\<forall>cp. g db (LedgerIndex l) \<noteq> (Some cp, None)) \<longrightarrow>
         fst (processLedger (e\<lparr>GetCheckpoint := g\<rparr>) db l d) = fst (processLedger e db l d) \<and>
         fst (snd (processLedger (e\<lparr>GetCheckpoint := g\<rparr>) db l d)) =
           fst (snd (processLedger e db l d)))"
      by blast
  qed
  have b: "1 < LedgerIndex l \<and> GetCheckpoint e db (LedgerIndex l - 1) = (Some p, None) \<longrightarrow>
      continuity_check e db l =
        CallGetCheckpoint (LedgerIndex l - 1) #
        (if verbose e
         then [Log ''Verified sequential ledger: %d follows %d''
                 [ArgWord (LedgerIndex l), ArgWord (cp_LedgerIndex p)]]
         else [])"
    by (simp add: continuity_check_def logVerbose_def)
  have c: "\<not> 1 < LedgerIndex l \<longrightarrow> continuity_check e db l = []"
    by (simp add: continuity_check_def)
  have d: "(\<forall>cp. GetCheckpoint e db (LedgerIndex l) \<noteq> (Some cp, None)) \<longrightarrow>
      (\<exists>post. processLedger e db l d =
         (fst (SaveCheckpoint e (fst (process_txs e db l (Transactions l))) (new_checkpoint l d)),
          snd (SaveCheckpoint e (fst (process_txs e db l (Transactions l))) (new_checkpoint l d)),
          CallGetCheckpoint (LedgerIndex l) # continuity_check e db l @
          Log ''Processing ledger %d (hash: %s, txns: %d)''
            [ArgWord (LedgerIndex l), ArgStr (LedgerHash l), ArgInt (TxnCount l)] #
          snd (process_txs e db l (Transactions l)) @
          CallSaveCheckpoint (new_checkpoint l d) # post) \<and>
         list_all is_log post) \<and>
      attempted (snd (snd (processLedger e db l d))) = Transactions l \<and>
      saved (snd (snd (processLedger e db l d))) = [new_checkpoint l d]"
    using run post att sav by blast
  from a b c d show ?thesis by (intro conjI)
qed

theorem continuity_check_never_blocks_witness:
  "1 < LedgerIndex (ledger_at 5 []) \<and>
   GetCheckpoint toy_env toy_db0 (LedgerIndex (ledger_at 5 []) - 1) = (None, None) \<and>
   GetCheckpoint toy_env toy_db0 (LedgerIndex (ledger_at 5 [])) = (None, None) \<and>
   continuity_check toy_env toy_db0 (ledger_at 5 []) = [CallGetCheckpoint 4] \<and>
   fst (processLedger
          (toy_env\<lparr>GetCheckpoint := (\<lambda>db i. (if i = 4 then Some (cp_at 4) else None, None))\<rparr>)
          toy_db0 (ledger_at 5 []) 1) =
     fst (processLedger toy_env toy_db0 (ledger_at 5 []) 1) \<and>
   fst (processLedger toy_env toy_db0 (ledger_at 5 []) 1) =
     \<lparr>toy_checkpoints = [new_checkpoint (ledger_at 5 []) 1, cp_at 7], toy_pools = [],
      toy_offers = [], toy_cancelled = []\<rparr> \<and>
   1 < LedgerIndex (ledger_at 8 []) \<and>
   GetCheckpoint toy_env toy_db0 (LedgerIndex (ledger_at 8 []) - 1) = (Some (cp_at 7), None) \<and>
   verbose toy_env \<and>
   continuity_check toy_env toy_db0 (ledger_at 8 []) =
     [CallGetCheckpoint 7,
      Log ''Verified sequential ledger: %d follows %d'' [ArgWord 8, ArgWord 7]] \<and>
   GetCheckpoint toy_env_quiet toy_db0 (LedgerIndex (ledger_at 8 []) - 1) =
     (Some (cp_at 7), None) \<and>
   \<not> verbose toy_env_quiet \<and>
   continuity_check toy_env_quiet toy_db0 (ledger_at 8 []) = [CallGetCheckpoint 7] \<and>
   \<not> 1 < LedgerIndex (ledger_at 1 []) \<and>
   continuity_check toy_env toy_db0 (ledger_at 1 []) = [] \<and>
   saved (snd (snd (processLedger toy_env toy_db0 (ledger_at 8 []) 1))) =
     [new_checkpoint (ledger_at 8 []) 1]"
proof -
  let ?l = "ledger_at 5 []"
  let ?m = "ledger_at 8 []"
  let ?g = "\<lambda>(db :: toy_db) (i :: i64). (if i = 4 then Some (cp_at 4) else None, None :: err option)"
  have idx: "1 < LedgerIndex ?l"
    by (simp add: toy_defs)
  have a: "GetCheckpoint toy_env toy_db0 (LedgerIndex ?l - 1) = (None, None)"
    and b: "GetCheckpoint toy_env toy_db0 (LedgerIndex ?l) = (None, None)"
    by (simp_all add: toy_defs)
  have pre: "1 < LedgerIndex ?l \<and>
      (\<forall>p. GetCheckpoint toy_env toy_db0 (LedgerIndex ?l - 1) \<noteq> (Some p, None)) \<and>
      (\<forall>cp. GetCheckpoint toy_env toy_db0 (LedgerIndex ?l) \<noteq> (Some cp, None))"
    using idx a b by simp
  have g: "\<forall>cp. ?g toy_db0 (LedgerIndex ?l) \<noteq> (Some cp, None)"
    by (simp add: toy_defs)
  have i4: "LedgerIndex ?l - 1 = 4" and i7: "LedgerIndex ?m - 1 = 7" and i8: "LedgerIndex ?m = 8"
    by (simp_all add: toy_defs)
  have d: "fst (processLedger toy_env toy_db0 ?l 1) =
     \<lparr>toy_checkpoints = [new_checkpoint ?l 1, cp_at 7], toy_pools = [],
      toy_offers = [], toy_cancelled = []\<rparr>"
    by (simp add: toy_defs run_defs)
  note T1 = continuity_check_never_blocks
    [where e = toy_env and db = toy_db0 and l = ?l and d = 1 and g = ?g,
      THEN conjunct1, THEN mp, OF pre]
  have c1: "continuity_check toy_env toy_db0 ?l = [CallGetCheckpoint (LedgerIndex ?l - 1)]"
    by (rule T1 [THEN conjunct1])
  have c2: "fst (processLedger (toy_env\<lparr>GetCheckpoint := ?g\<rparr>) toy_db0 ?l 1) =
       fst (processLedger toy_env toy_db0 ?l 1)"
    by (rule T1 [THEN conjunct2, THEN conjunct2, THEN conjunct2, THEN mp, OF g, THEN conjunct1])
  have idx8: "1 < LedgerIndex ?m"
    by (simp add: toy_defs)
  have f: "GetCheckpoint toy_env toy_db0 (LedgerIndex ?m - 1) = (Some (cp_at 7), None)"
    and fq: "GetCheckpoint toy_env_quiet toy_db0 (LedgerIndex ?m - 1) = (Some (cp_at 7), None)"
    and v: "verbose toy_env" and vq: "\<not> verbose toy_env_quiet"
    and fresh: "\<forall>cp. GetCheckpoint toy_env toy_db0 (LedgerIndex ?m) \<noteq> (Some cp, None)"
    by (simp_all add: toy_defs toy_env_quiet_def)
  have c3: "continuity_check toy_env toy_db0 ?m =
      CallGetCheckpoint (LedgerIndex ?m - 1) #
      (if verbose toy_env
       then [Log ''Verified sequential ledger: %d follows %d''
               [ArgWord (LedgerIndex ?m), ArgWord (cp_LedgerIndex (cp_at 7))]]
       else [])"
    by (rule continuity_check_never_blocks
        [where e = toy_env and db = toy_db0 and l = ?m and p = "cp_at 7",
          THEN conjunct2, THEN conjunct1, THEN mp, OF conjI, OF idx8 f])
  have c4: "continuity_check toy_env_quiet toy_db0 ?m =
      CallGetCheckpoint (LedgerIndex ?m - 1) #
      (if verbose toy_env_quiet
       then [Log ''Verified sequential ledger: %d follows %d''
               [ArgWord (LedgerIndex ?m), ArgWord (cp_LedgerIndex (cp_at 7))]]
       else [])"
    by (rule continuity_check_never_blocks
        [where e = toy_env_quiet and db = toy_db0 and l = ?m and p = "cp_at 7",
          THEN conjunct2, THEN conjunct1, THEN mp, OF conjI, OF idx8 fq])
  have n1: "\<not> 1 < LedgerIndex (ledger_at 1 [])"
    by (simp add: toy_defs)
  have c5: "continuity_check toy_env toy_db0 (ledger_at 1 []) = []"
    by (rule continuity_check_never_blocks
        [where e = toy_env and db = toy_db0 and l = "ledger_at 1 []",
          THEN conjunct2, THEN conjunct2, THEN conjunct1, THEN mp, OF n1])
  have c6: "saved (snd (snd (processLedger toy_env toy_db0 ?m 1))) = [new_checkpoint ?m 1]"
    by (rule continuity_check_never_blocks
        [where e = toy_env and db = toy_db0 and l = ?m and d = 1,
          THEN conjunct2, THEN conjunct2, THEN conjunct2, THEN mp, OF fresh,
          THEN conjunct2, THEN conjunct2])
  have k: "cp_LedgerIndex (cp_at 7) = 7"
    by (simp add: cp_at_def)
  from idx a b d c1 c2 idx8 f fq v vq c3 c4 n1 c5 c6 show ?thesis
    by (simp add: i4 i7 i8 k)
qed

section \<open>Properties of the backfill task\<close>

lemma fetch_retry_0:
  "fetch_retry c i 0 =
     (case FetchLedgerSync c i 0 of
        Inr l \<Rightarrow> (Inr l, [CallFetchLedgerSync i])
      | Inl e0 \<Rightarrow>
          (case FetchLedgerSync c i 1 of
             Inr l \<Rightarrow>
               (Inr l,
                [CallFetchLedgerSync i,
                 Log ''Backfill retry %d/3 for ledger %d: %v'' [ArgNat 1, ArgWord i, ArgStr e0],
                 Sleep 1, CallFetchLedgerSync i])
           | Inl e1 \<Rightarrow>
               (case FetchLedgerSync c i 2 of
                  Inr l \<Rightarrow>
                    (Inr l,
                     [CallFetchLedgerSync i,
                      Log ''Backfill retry %d/3 for ledger %d: %v''
                        [ArgNat 1, ArgWord i, ArgStr e0],
                      Sleep 1, CallFetchLedgerSync i,
                      Log ''Backfill retry %d/3 for ledger %d: %v''
                        [ArgNat 2, ArgWord i, ArgStr e1],
                      Sleep 2, CallFetchLedgerSync i])
                | Inl e2 \<Rightarrow>
                    (Inl e2,
                     [CallFetchLedgerSync i,
                      Log ''Backfill retry %d/3 for ledger %d: %v''
                        [ArgNat 1, ArgWord i, ArgStr e0],
                      Sleep 1, CallFetchLedgerSync i,
                      Log ''Backfill retry %d/3 for ledger %d: %v''
                        [ArgNat 2, ArgWord i, ArgStr e1],
                      Sleep 2, CallFetchLedgerSync i,
                      Log ''Backfill retry %d/3 for ledger %d: %v''
                        [ArgNat 3, ArgWord i, ArgStr e2],
                      Sleep 3]))))"
  by (simp add: fetch_retry.simps [of c i 0] fetch_retry.simps [of c i "Suc 0"]
      fetch_retry.simps [of c i "Suc (Suc 0)"] eval_nat_numeral split: sum.splits)

lemma fetch_retry_attempts:
  assumes "fetch_retry c i 0 = (r, evs)"
  shows "fetched evs \<in> {[i], [i, i], [i, i, i]} \<and>
     sleeps evs \<in> {[], [1], [1, 2], [1, 2, 3]} \<and>
     length (sleeps evs) = length (fetched evs) - (if isl r then 0 else 1) \<and>
     isl r = exhausted c i \<and>
     (isl r \<longrightarrow> fetched evs = [i, i, i] \<and> sleeps evs = [1, 2, 3])"
proof -
  from assms have start: "(r, evs) = fetch_retry c i 0" by simp
  show ?thesis
  proof (cases "FetchLedgerSync c i 0")
    case (Inr l)
    have "(r, evs) = fetch_retry c i 0" by (rule start)
    also have "\<dots> = (Inr l, [CallFetchLedgerSync i])"
      by (simp add: fetch_retry_0 Inr del: One_nat_def)
    finally have "r = Inr l" "evs = [CallFetchLedgerSync i]" by simp_all
    moreover from Inr have "\<not> exhausted c i" by (simp add: exhausted_def del: One_nat_def)
    ultimately show ?thesis by simp
  next
    case e0: (Inl a0)
    show ?thesis
    proof (cases "FetchLedgerSync c i 1")
      case (Inr l)
      have "(r, evs) = fetch_retry c i 0" by (rule start)
      also have "\<dots> =
          (Inr l,
           [CallFetchLedgerSync i,
            Log ''Backfill retry %d/3 for ledger %d: %v'' [ArgNat 1, ArgWord i, ArgStr a0],
            Sleep 1, CallFetchLedgerSync i])"
        by (simp add: fetch_retry_0 e0 Inr del: One_nat_def)
      finally have "r = Inr l" "fetched evs = [i, i]" "sleeps evs = [1]" by auto
      moreover from Inr have "\<not> exhausted c i" by (simp add: exhausted_def del: One_nat_def)
      ultimately show ?thesis by simp
    next
      case e1: (Inl a1)
      show ?thesis
      proof (cases "FetchLedgerSync c i 2")
        case (Inr l)
        have "(r, evs) = fetch_retry c i 0" by (rule start)
        also have "\<dots> =
            (Inr l,
             [CallFetchLedgerSync i,
              Log ''Backfill retry %d/3 for ledger %d: %v'' [ArgNat 1, ArgWord i, ArgStr a0],
              Sleep 1, CallFetchLedgerSync i,
              Log ''Backfill retry %d/3 for ledger %d: %v'' [ArgNat 2, ArgWord i, ArgStr a1],
              Sleep 2, CallFetchLedgerSync i])"
          by (simp add: fetch_retry_0 e0 e1 Inr del: One_nat_def)
        finally have "r = Inr l" "fetched evs = [i, i, i]" "sleeps evs = [1, 2]" by auto
        moreover from Inr have "\<not> exhausted c i" by (simp add: exhausted_def del: One_nat_def)
        ultimately show ?thesis by simp
      next
        case (Inl a2)
        have "(r, evs) = fetch_retry c i 0" by (rule start)
        also have "\<dots> =
            (Inl a2,
             [CallFetchLedgerSync i,
              Log ''Backfill retry %d/3 for ledger %d: %v'' [ArgNat 1, ArgWord i, ArgStr a0],
              Sleep 1, CallFetchLedgerSync i,
              Log ''Backfill retry %d/3 for ledger %d: %v'' [ArgNat 2, ArgWord i, ArgStr a1],
              Sleep 2, CallFetchLedgerSync i,
              Log ''Backfill retry %d/3 for ledger %d: %v'' [ArgNat 3, ArgWord i, ArgStr a2],
              Sleep 3])"
          by (simp add: fetch_retry_0 e0 e1 Inl del: One_nat_def)
        finally have "r = Inl a2" "fetched evs = [i, i, i]" "sleeps evs = [1, 2, 3]" by auto
        moreover from Inl e0 e1 have "exhausted c i" by (simp add: exhausted_def del: One_nat_def)
        ultimately show ?thesis by simp
      qed
    qed
  qed
qed

lemma processLedger_no_fetch [simp]:
  "fetched (snd (snd (processLedger e db l d))) = []"
  "sleeps (snd (snd (processLedger e db l d))) = []"
  by (simp_all add: processLedger_def process_body_def Let_def case_prod_beta
      split: prod.splits option.splits)

lemma processLedger_no_fetch_rel:
  "processLedger e db l d = (db', r, tr) \<Longrightarrow> fetched tr = [] \<and> sleeps tr = []"
  using processLedger_no_fetch [of e db l d] by simp

lemma backfill_iteration_stop:
  assumes "exhausted c i" and "backfill_iteration e c m db i n k = (db', it, evs)"
  shows "db' = db \<and> it = BfStop \<and> fetched evs = [i, i, i] \<and> sleeps evs = [1, 2, 3] \<and>
     last evs = Log ''Failed to backfill ledger %d after 3 retries - STOPPING'' [ArgWord i]"
  using assms
  by (auto simp: backfill_iteration_def Let_def split: prod.splits sum.splits
      dest!: fetch_retry_attempts)

lemma backfill_iteration_next:
  assumes "\<not> exhausted c i" and "backfill_iteration e c m db i n k = (db', it, evs)"
  shows "(\<exists>n' k'. it = BfNext n' k') \<and> fetched evs \<in> {[i], [i, i], [i, i, i]}"
  using assms
  by (auto simp: backfill_iteration_def Let_def
      split: prod.splits sum.splits option.splits if_splits
      dest!: fetch_retry_attempts processLedger_no_fetch_rel)


text \<open>Facts about the range of ledger indices.\<close>

lemma unat_succ_less: "(i :: u64) < c \<Longrightarrow> unat (i + 1) = Suc (unat i)"
  by unat_arith

lemma unat_of_nat_bound: "n \<le> unat (z :: u64) \<Longrightarrow> unat (word_of_nat n :: u64) = n"
  by (rule le_unat_uoi)

lemma ledger_range_empty: "\<not> i < c \<Longrightarrow> ledger_range i c = []"
  by (simp add: ledger_range_def word_less_nat_alt)

lemma ledger_range_Cons: "i < c \<Longrightarrow> ledger_range i c = i # ledger_range (i + 1) c"
  by (simp add: ledger_range_def unat_succ_less word_less_nat_alt upt_conv_Cons)

lemma ledger_range_mem: "x \<in> set (ledger_range a b) \<Longrightarrow> a \<le> x \<and> x < b"
proof -
  assume "x \<in> set (ledger_range a b)"
  then obtain n where n: "unat a \<le> n" "n < unat b" and x: "x = word_of_nat n"
    by (auto simp: ledger_range_def)
  from n have "unat (word_of_nat n :: u64) = n"
    by (intro unat_of_nat_bound [of n b]) simp
  with n x show ?thesis by (simp add: word_le_nat_alt word_less_nat_alt)
qed

lemma ledger_range_sorted: "sorted_wrt (<) (ledger_range a b)"
proof -
  have "sorted_wrt (\<lambda>x y. (word_of_nat x :: u64) < word_of_nat y) [unat a ..< unat b]"
  proof (rule sorted_wrt_mono_rel [of _ "(<)"])
    fix x y assume "x \<in> set [unat a ..< unat b]" "y \<in> set [unat a ..< unat b]" "x < y"
    then have "unat (word_of_nat x :: u64) = x" "unat (word_of_nat y :: u64) = y"
      by (auto intro!: unat_of_nat_bound [of _ b])
    with \<open>x < y\<close> show "(word_of_nat x :: u64) < word_of_nat y"
      by (simp add: word_less_nat_alt)
  qed simp
  then show ?thesis by (simp add: ledger_range_def sorted_wrt_map)
qed

lemma remdups_adj_fresh:
  "xs \<in> {[i], [i, i], [i, i, i]} \<Longrightarrow> i \<notin> set ys \<Longrightarrow> remdups_adj (xs @ ys) = i # remdups_adj ys"
  by (cases ys) auto

text \<open>
  The walk of the loop from \<open>i\<close>: it ends at the first ledger whose three attempts all
  fail, or at the validated ledger when there is none.
\<close>

lemma backfill_loop_walk:
  assumes "backfill_loop e c cur m db i n k = (db', r, tr)"
  shows "case r of
           BfConnectFailed \<Rightarrow> False
         | BfAborted j \<Rightarrow>
             i \<le> j \<and> j < cur \<and> exhausted c j \<and> (\<forall>j'. i \<le> j' \<and> j' < j \<longrightarrow> \<not> exhausted c j') \<and>
             visited tr = ledger_range i j @ [j] \<and> tr \<noteq> [] \<and>
             last tr =
               Log ''Failed to backfill ledger %d after 3 retries - STOPPING'' [ArgWord j]
         | BfComplete n' k' \<Rightarrow>
             (\<forall>j'. i \<le> j' \<and> j' < cur \<longrightarrow> \<not> exhausted c j') \<and> visited tr = ledger_range i cur"
  using assms
proof (induction "unat cur - unat i" arbitrary: i db n k db' r tr)
  case 0
  then have nlt: "\<not> i < cur" by (simp add: word_less_nat_alt)
  with "0.prems" have "r = BfComplete n k" and "visited tr = []"
    by (auto simp: backfill_loop.simps [of e c cur m db i n k] visited_def fetched_def)
  with nlt show ?case by (auto simp: ledger_range_empty)
next
  case (Suc d)
  then have lt: "i < cur" by (simp add: word_less_nat_alt)
  then have succ: "unat (i + 1) = Suc (unat i)" by (rule unat_succ_less)
  then have lt1: "i < i + 1" by (simp add: word_less_nat_alt)
  obtain db1 it evs1 where it: "backfill_iteration e c m db i n k = (db1, it, evs1)"
    by (cases "backfill_iteration e c m db i n k") auto
  show ?case
  proof (cases "exhausted c i")
    case True
    from backfill_iteration_stop [OF True it]
    have stop: "it = BfStop" and f: "fetched evs1 = [i, i, i]"
      and l: "last evs1 =
        Log ''Failed to backfill ledger %d after 3 retries - STOPPING'' [ArgWord i]"
      by simp_all
    from Suc.prems lt it stop have res: "r = BfAborted i" "tr = evs1"
      by (simp_all add: backfill_loop.simps [of e c cur m db i n k])
    from f have ne: "evs1 \<noteq> []" by auto
    from f have "visited evs1 = [i]" by (simp add: visited_def)
    with res True lt l ne show ?thesis
      by (auto simp: ledger_range_empty)
  next
    case False
    from backfill_iteration_next [OF False it]
    obtain n' k' where nx: "it = BfNext n' k'" and f: "fetched evs1 \<in> {[i], [i, i], [i, i, i]}"
      by blast
    obtain db2 r2 tr2 where rec: "backfill_loop e c cur m db1 (i + 1) n' k' = (db2, r2, tr2)"
      by (cases "backfill_loop e c cur m db1 (i + 1) n' k'") auto
    from Suc.prems lt it nx rec have res: "r = r2" "tr = evs1 @ tr2"
      by (simp_all add: backfill_loop.simps [of e c cur m db i n k])
    from Suc.hyps(2) succ have d: "d = unat cur - unat (i + 1)" by simp
    note IH = Suc.hyps(1) [OF d rec]
    have low: "\<not> exhausted c j'" if "i \<le> j'" "j' < i + 1" for j'
    proof -
      from that succ have "j' = i" by (simp add: word_le_nat_alt word_less_nat_alt word_unat_eq_iff)
      with False show ?thesis by simp
    qed
    show ?thesis
    proof (cases r2)
      case BfConnectFailed
      with IH show ?thesis by simp
    next
      case (BfAborted j)
      with IH have a: "i + 1 \<le> j" "j < cur" "exhausted c j"
        "\<forall>j'. i + 1 \<le> j' \<and> j' < j \<longrightarrow> \<not> exhausted c j'"
        "visited tr2 = ledger_range (i + 1) j @ [j]" "tr2 \<noteq> []"
        "last tr2 = Log ''Failed to backfill ledger %d after 3 retries - STOPPING'' [ArgWord j]"
        by simp_all
      from a(1) lt1 have ij: "i < j" by simp
      have "set (fetched tr2) = set (visited tr2)" by (simp add: visited_def)
      with a(5) ij lt1 have fresh: "i \<notin> set (fetched tr2)"
        using ledger_range_mem [of i "i + 1" j] by auto
      have "visited tr = i # visited tr2"
        using remdups_adj_fresh [OF f fresh] by (simp add: visited_def res)
      with a(5) ij have v: "visited tr = ledger_range i j @ [j]"
        by (simp add: ledger_range_Cons)
      have ex: "\<not> exhausted c j'" if "i \<le> j'" "j' < j" for j'
      proof (cases "j' < i + 1")
        case True
        with that low show ?thesis by simp
      next
        case False
        with that a(4) show ?thesis by simp
      qed
      from res BfAborted a ij v ex show ?thesis by auto
    next
      case (BfComplete n2 k2)
      with IH have a: "\<forall>j'. i + 1 \<le> j' \<and> j' < cur \<longrightarrow> \<not> exhausted c j'"
        "visited tr2 = ledger_range (i + 1) cur"
        by simp_all
      have "set (fetched tr2) = set (visited tr2)" by (simp add: visited_def)
      with a(2) lt1 have fresh: "i \<notin> set (fetched tr2)"
        using ledger_range_mem [of i "i + 1" cur] by auto
      have "visited tr = i # visited tr2"
        using remdups_adj_fresh [OF f fresh] by (simp add: visited_def res)
      with a(2) lt have v: "visited tr = ledger_range i cur"
        by (simp add: ledger_range_Cons)
      have ex: "\<not> exhausted c j'" if "i \<le> j'" "j' < cur" for j'
      proof (cases "j' < i + 1")
        case True
        with that low show ?thesis by simp
      next
        case False
        with that a(1) show ?thesis by simp
      qed
      from res BfComplete v ex show ?thesis by auto
    qed
  qed
qed


lemma ledger_range_snoc:
  assumes "b \<le> j" and "j < c"
  shows "ledger_range b j @ [j] = ledger_range b (j + 1)"
proof -
  from assms(2) have "unat (j + 1) = Suc (unat j)" by (rule unat_succ_less)
  moreover from assms(1) have "unat b \<le> unat j" by (simp add: word_le_nat_alt)
  ultimately show ?thesis by (simp add: ledger_range_def)
qed

lemma backfill_task_walk:
  assumes "backfill_task e c db start cur m = (db', r, tr)"
  shows "case r of
           BfConnectFailed \<Rightarrow> bfConnect c \<noteq> None \<and> visited tr = []
         | BfAborted j \<Rightarrow>
             bfConnect c = None \<and> start \<le> j \<and> j < cur \<and> exhausted c j \<and>
             (\<forall>j'. start \<le> j' \<and> j' < j \<longrightarrow> \<not> exhausted c j') \<and>
             visited tr = ledger_range start j @ [j] \<and>
             last tr =
               Log ''Failed to backfill ledger %d after 3 retries - STOPPING'' [ArgWord j]
         | BfComplete n' k' \<Rightarrow>
             bfConnect c = None \<and> (\<forall>j'. start \<le> j' \<and> j' < cur \<longrightarrow> \<not> exhausted c j') \<and>
             visited tr = ledger_range start cur"
proof (cases "bfConnect c")
  case (Some er)
  with assms show ?thesis
    by (auto simp: backfill_task_def visited_def fetched_def)
next
  case None
  obtain db2 r2 tr2 where rec: "backfill_loop e c cur m db start 0 0 = (db2, r2, tr2)"
    by (cases "backfill_loop e c cur m db start 0 0") auto
  with assms None have res: "r = r2" "tr = CallBackfillConnect # tr2"
    by (simp_all add: backfill_task_def)
  then have v: "visited tr = visited tr2" by (simp add: visited_def fetched_def)
  from backfill_loop_walk [OF rec] res v None show ?thesis
    by (cases r2) auto
qed

text \<open>
  Claim C2, as stated, gives the range [1001, 1005] for the checkpoint 1000 and the
  validated ledger 1006, and has every gap above 1 backfilled. With the start ledger
  99984580, the default of the flag, the gap is 6 and 5 ledgers are missing, but the
  cutoff leaves nothing to backfill; and for the validated ledger 5000 the gap is above 1
  and the backfill is skipped as too large.
\<close>

theorem backfill_walks_missing_range_counterexample:
  "gap 1006 (cp_at 1000) = 6 \<and> 1 < gap 1006 (cp_at 1000) \<and>
   missingCount 1006 (cp_at 1000) = 5 \<and>
   gap_decision 99984580 (Some (cp_at 1000)) 1006 = BeforeCutoff \<and>
   \<not> launches_backfill (gap_decision 99984580 (Some (cp_at 1000)) 1006) \<and>
   1 < gap 5000 (cp_at 1000) \<and>
   gap_decision 0 (Some (cp_at 1000)) 5000 = LargeGapSkipped"
  by (simp add: gap_decision_def check_gap_def cp_at_def gap_def missingCount_def
      smallGapThreshold_def backfillStart_def Let_def)

text \<open>
  Claim C2, amended. The gap is the validated ledger minus the checkpoint, on 64-bit
  values. A gap of at most 1 launches nothing. For a gap above 1 the missing count is the
  gap minus 1; when it is at most 1000 and the clamped start is below the validated
  ledger, a backfill task is launched for the range from the clamped start up to and
  without the validated ledger, and the range is strictly ascending. The indices the
  task asks for are strictly ascending and within the range whatever the client
  answers, and when the task connects and no ledger fails its three attempts the task
  completes and the indices are the whole range, in order.
\<close>

theorem backfill_walks_missing_range:
  "gap c cp = c - cp_LedgerIndex cp \<and>
   (gap c cp \<le> 1 \<longrightarrow> gap_decision s (Some cp) c = UpToDate) \<and>
   (1 < gap c cp \<and> missingCount c cp \<le> smallGapThreshold \<and> backfillStart s cp < c \<longrightarrow>
      missingCount c cp = gap c cp - 1 \<and>
      gap_decision s (Some cp) c = BackfillLaunched (backfillStart s cp) c (gap c cp - 1) \<and>
      sorted_wrt (<) (ledger_range (backfillStart s cp) c)) \<and>
   (backfill_task e cl db b c m = (db', r, tr) \<longrightarrow>
      sorted_wrt (<) (visited tr) \<and> (\<forall>x \<in> set (visited tr). b \<le> x \<and> x < c) \<and>
      (bfConnect cl = None \<and> (\<forall>i. b \<le> i \<and> i < c \<longrightarrow> \<not> exhausted cl i) \<longrightarrow>
         (\<exists>n k. r = BfComplete n k) \<and> visited tr = ledger_range b c))"
proof (intro conjI impI)
  show "gap c cp = c - cp_LedgerIndex cp" by (simp add: gap_def)
next
  assume "gap c cp \<le> 1"
  then have "\<not> 1 < gap c cp" by simp
  then show "gap_decision s (Some cp) c = UpToDate"
    by (simp add: gap_decision_def check_gap_def Let_def)
next
  assume a: "1 < gap c cp \<and> missingCount c cp \<le> smallGapThreshold \<and> backfillStart s cp < c"
  show "missingCount c cp = gap c cp - 1" by (simp add: missingCount_def)
  from a have "\<not> smallGapThreshold < missingCount c cp" "\<not> c \<le> backfillStart s cp"
    "1 < gap c cp"
    by (simp_all add: not_less not_le)
  then show "gap_decision s (Some cp) c =
      BackfillLaunched (backfillStart s cp) c (gap c cp - 1)"
    by (simp add: gap_decision_def check_gap_def Let_def) (simp add: missingCount_def)
  show "sorted_wrt (<) (ledger_range (backfillStart s cp) c)" by (rule ledger_range_sorted)
next
  assume run: "backfill_task e cl db b c m = (db', r, tr)"
  note w = backfill_task_walk [OF run]
  have shape: "visited tr = [] \<or> (\<exists>j. b \<le> j \<and> j < c \<and> visited tr = ledger_range b (j + 1)) \<or>
      visited tr = ledger_range b c"
    using w by (cases r) (auto simp: ledger_range_snoc)
  from shape show "sorted_wrt (<) (visited tr)"
    by (auto simp: ledger_range_sorted)
  show "\<forall>x \<in> set (visited tr). b \<le> x \<and> x < c"
  proof
    fix x assume x: "x \<in> set (visited tr)"
    from shape x consider j where "b \<le> j" "j < c" "x \<in> set (ledger_range b (j + 1))"
      | "x \<in> set (ledger_range b c)"
      by auto
    then show "b \<le> x \<and> x < c"
    proof cases
      case 1
      from ledger_range_mem [OF 1(3)] have "b \<le> x" "x < j + 1" by simp_all
      moreover from 1(2) have "unat (j + 1) = Suc (unat j)" by (rule unat_succ_less)
      ultimately show ?thesis using 1(2) by (simp add: word_less_nat_alt word_le_nat_alt)
    next
      case 2
      then show ?thesis by (rule ledger_range_mem)
    qed
  qed
  {
    assume ok: "bfConnect cl = None \<and> (\<forall>i. b \<le> i \<and> i < c \<longrightarrow> \<not> exhausted cl i)"
    with w show "\<exists>n k. r = BfComplete n k" by (cases r) auto
    with w show "visited tr = ledger_range b c" by auto
  }
qed


lemma ledger_range_1001_1006: "ledger_range 1001 1006 = [1001, 1002, 1003, 1004, 1005]"
  by (simp add: ledger_range_def upt_rec [of 1001] upt_rec [of 1002] upt_rec [of 1003]
      upt_rec [of 1004] upt_rec [of 1005] upt_rec [of 1006])

lemma ledger_range_1001_1101: "ledger_range 1001 1101 = map word_of_nat [1001 ..< 1101]"
  by (simp add: ledger_range_def)

lemma good_client_ok:
  "bfConnect good_client = None \<and> (\<forall>i. b \<le> i \<and> i < c \<longrightarrow> \<not> exhausted good_client i)"
  by (simp add: good_client_def exhausted_def)

theorem backfill_walks_missing_range_witness:
  "gap 1001 (cp_at 1000) = 1 \<and> gap_decision 0 (Some (cp_at 1000)) 1001 = UpToDate \<and>
   gap 1006 (cp_at 1000) = 6 \<and> missingCount 1006 (cp_at 1000) = 5 \<and>
   backfillStart 0 (cp_at 1000) = 1001 \<and>
   gap_decision 0 (Some (cp_at 1000)) 1006 = BackfillLaunched 1001 1006 5 \<and>
   bfConnect good_client = None \<and>
   visited (snd (snd (backfill_task toy_env good_client toy_db0 1001 1006 5))) =
     [1001, 1002, 1003, 1004, 1005] \<and>
   gap 1101 (cp_at 1000) = 101 \<and> missingCount 1101 (cp_at 1000) = 100 \<and>
   gap_decision 0 (Some (cp_at 1000)) 1101 = BackfillLaunched 1001 1101 100 \<and>
   visited (snd (snd (backfill_task toy_env good_client toy_db0 1001 1101 100))) =
     map word_of_nat [1001 ..< 1101]"
proof -
  let ?X = "backfill_task toy_env good_client toy_db0 1001 1006 5"
  let ?Y = "backfill_task toy_env good_client toy_db0 1001 1101 100"
  have g1: "gap 1001 (cp_at 1000) = 1" "gap 1006 (cp_at 1000) = 6" "gap 1101 (cp_at 1000) = 101"
    and m: "missingCount 1006 (cp_at 1000) = 5" "missingCount 1101 (cp_at 1000) = 100"
    and b: "backfillStart 0 (cp_at 1000) = 1001"
    by (simp_all add: gap_def missingCount_def backfillStart_def cp_at_def)
  have h1: "gap 1001 (cp_at 1000) \<le> 1" by (simp add: g1)
  have h2: "1 < gap 1006 (cp_at 1000) \<and> missingCount 1006 (cp_at 1000) \<le> smallGapThreshold \<and>
      backfillStart 0 (cp_at 1000) < 1006"
    by (simp add: g1 m b smallGapThreshold_def)
  have h3: "1 < gap 1101 (cp_at 1000) \<and> missingCount 1101 (cp_at 1000) \<le> smallGapThreshold \<and>
      backfillStart 0 (cp_at 1000) < 1101"
    by (simp add: g1 m b smallGapThreshold_def)
  have runX: "?X = (fst ?X, fst (snd ?X), snd (snd ?X))"
    and runY: "?Y = (fst ?Y, fst (snd ?Y), snd (snd ?Y))"
    by simp_all
  note t1 = backfill_walks_missing_range [where c = 1001 and cp = "cp_at 1000" and s = 0]
  note t2 = backfill_walks_missing_range [where c = 1006 and cp = "cp_at 1000" and s = 0
      and e = toy_env and cl = good_client and db = toy_db0 and b = 1001 and m = 5
      and db' = "fst ?X" and r = "fst (snd ?X)" and tr = "snd (snd ?X)"]
  note t3 = backfill_walks_missing_range [where c = 1101 and cp = "cp_at 1000" and s = 0
      and e = toy_env and cl = good_client and db = toy_db0 and b = 1001 and m = 100
      and db' = "fst ?Y" and r = "fst (snd ?Y)" and tr = "snd (snd ?Y)"]
  have d1: "gap_decision 0 (Some (cp_at 1000)) 1001 = UpToDate"
    using t1 [THEN conjunct2, THEN conjunct1] h1 by blast
  have d2: "gap_decision 0 (Some (cp_at 1000)) 1006 = BackfillLaunched 1001 1006 5"
    using t2 [THEN conjunct2, THEN conjunct2, THEN conjunct1, THEN mp, OF h2]
    by (simp add: g1 b)
  have d3: "gap_decision 0 (Some (cp_at 1000)) 1101 = BackfillLaunched 1001 1101 100"
    using t3 [THEN conjunct2, THEN conjunct2, THEN conjunct1, THEN mp, OF h3]
    by (simp add: g1 b)
  have v2: "visited (snd (snd ?X)) = ledger_range 1001 1006"
    using t2 [THEN conjunct2, THEN conjunct2, THEN conjunct2, THEN mp, OF runX]
      good_client_ok [of 1001 1006]
    by blast
  have v3: "visited (snd (snd ?Y)) = ledger_range 1001 1101"
    using t3 [THEN conjunct2, THEN conjunct2, THEN conjunct2, THEN mp, OF runY]
      good_client_ok [of 1001 1101]
    by blast
  from g1 m b d1 d2 d3 v2 v3 good_client_ok [of 0 0] show ?thesis
    by (simp add: ledger_range_1001_1006 ledger_range_1001_1101)
qed

section \<open>The backfill task beside the live loop\<close>

lemma live_step_no_fetch:
  "live_step e db ev = (db', stop, evs) \<Longrightarrow> fetched evs = []"
  by (cases ev) (auto split: prod.splits option.splits dest: processLedger_no_fetch_rel)

lemma main_loop_no_fetch:
  "main_loop e db evs = (db', stop, tr) \<Longrightarrow> fetched tr = []"
proof (induction evs arbitrary: db db' stop tr)
  case Nil
  then show ?case by simp
next
  case (Cons ev evs)
  obtain db1 st1 ev1 where ls: "live_step e db ev = (db1, st1, ev1)"
    by (cases "live_step e db ev") auto
  obtain db2 st2 ev2 where ml: "main_loop e db1 evs = (db2, st2, ev2)"
    by (cases "main_loop e db1 evs") auto
  from Cons.prems ls ml have "tr = ev1 \<or> tr = ev1 @ ev2"
    by (cases st1) auto
  with live_step_no_fetch [OF ls] Cons.IH [OF ml] show ?case by auto
qed

lemma sys_run_exited:
  "sys_exited s \<Longrightarrow> sys_run e c start cur m s ts = (s, [])"
  by (induction ts) (simp_all add: sys_step_def)

text \<open>
  Once the task has returned, a run of the two is the live loop alone on the rounds the
  schedule gives it.
\<close>

lemma sys_run_after_return:
  assumes "sys_bf s = BfReturned res" and "\<not> sys_exited s"
    and "sys_run e c start cur m s ts = (s2, evs2)"
  shows "main_loop e (sys_db s) (live_events ts) = (sys_db s2, sys_exited s2, evs2) \<and>
     sys_bf s2 = BfReturned res"
  using assms
proof (induction ts arbitrary: s s2 evs2)
  case Nil
  then show ?case by (simp add: live_events_def)
next
  case (Cons t ts)
  show ?case
  proof (cases t)
    case BackfillTurn
    with Cons.prems have step: "sys_step e c start cur m s t = (s, [])"
      by (simp add: sys_step_def backfill_turn_def)
    with Cons.prems have "sys_run e c start cur m s ts = (s2, evs2)"
      by (simp split: prod.splits)
    from Cons.IH [OF Cons.prems(1,2) this] BackfillTurn show ?thesis
      by (simp add: live_events_def)
  next
    case (LiveTurn ev)
    obtain db1 st1 ev1 where ls: "live_step e (sys_db s) ev = (db1, st1, ev1)"
      by (cases "live_step e (sys_db s) ev") auto
    let ?s1 = "s\<lparr>sys_db := db1, sys_exited := st1\<rparr>"
    from Cons.prems(2) LiveTurn ls have step: "sys_step e c start cur m s t = (?s1, ev1)"
      by (simp add: sys_step_def)
    obtain s3 ev3 where rest: "sys_run e c start cur m ?s1 ts = (s3, ev3)"
      by (cases "sys_run e c start cur m ?s1 ts") auto
    from Cons.prems(3) step rest have res: "s2 = s3" "evs2 = ev1 @ ev3"
      by simp_all
    have le: "live_events (t # ts) = ev # live_events ts"
      by (simp add: live_events_def LiveTurn)
    show ?thesis
    proof (cases st1)
      case True
      with rest sys_run_exited [of ?s1 e c start cur m ts] have "s3 = ?s1" "ev3 = []"
        by simp_all
      with res ls True Cons.prems(1) show ?thesis by (simp add: le)
    next
      case False
      have bf: "sys_bf ?s1 = BfReturned res" using Cons.prems(1) by simp
      have ne: "\<not> sys_exited ?s1" using False by simp
      from Cons.IH [OF bf ne rest] res ls False show ?thesis by (simp add: le)
    qed
  qed
qed

lemma backfill_turn_abort:
  assumes "sys_bf s = BfLoop j n k" and "\<not> sys_exited s" and "j < cur" and "exhausted c j"
    and "sys_step e c start cur m s BackfillTurn = (s1, evs1)"
  shows "s1 = s\<lparr>sys_bf := BfReturned (BfAborted j)\<rparr> \<and> fetched evs1 = [j, j, j] \<and>
     sleeps evs1 = [1, 2, 3] \<and>
     last evs1 = Log ''Failed to backfill ledger %d after 3 retries - STOPPING'' [ArgWord j]"
proof -
  obtain db1 it ev where it: "backfill_iteration e c m (sys_db s) j n k = (db1, it, ev)"
    by (cases "backfill_iteration e c m (sys_db s) j n k") auto
  from backfill_iteration_stop [OF assms(4) it]
  have st: "db1 = sys_db s" "it = BfStop" "fetched ev = [j, j, j]" "sleeps ev = [1, 2, 3]"
    "last ev = Log ''Failed to backfill ledger %d after 3 retries - STOPPING'' [ArgWord j]"
    by simp_all
  from assms(1,2,3,5) it st(1,2) have "s1 = s\<lparr>sys_bf := BfReturned (BfAborted j)\<rparr>" "evs1 = ev"
    by (simp_all add: sys_step_def backfill_turn_def)
  with st show ?thesis by simp
qed

text \<open>
  Claim C5. The retry loop asks for a ledger at most three times (its counter \<open>retry\<close>
  takes the values 0, 1 and 2, and the log counts them as retries 1/3 to 3/3), pausing
  1, 2 and 3 seconds after the first, second and third failure, and it leaves an error
  exactly when all three attempts fail. When a ledger of the range fails all three
  attempts, a task that connected ends as aborted at the first such ledger: the indices
  it asked for are those from the start up to that ledger, none beyond it, and the last
  thing it does is the line that it stops. Beside the live loop, the step of the task
  that meets such a ledger makes the task return, leaves the store as it is and the
  live loop running; from then on, whatever the schedule, nothing more is fetched and
  the run is the live loop alone on the store.
\<close>

theorem backfill_retries_then_aborts:
  "(fetch_retry c i 0 = (fr, fevs) \<longrightarrow>
      length (fetched fevs) \<le> 3 \<and> set (fetched fevs) = {i} \<and>
      sleeps fevs \<in> {[], [1], [1, 2], [1, 2, 3]} \<and>
      length (sleeps fevs) = length (fetched fevs) - (if isl fr then 0 else 1) \<and>
      isl fr = exhausted c i) \<and>
   (bfConnect c = None \<and> start \<le> j \<and> j < cur \<and> exhausted c j \<and>
    backfill_task e c db start cur m = (db', r, tr) \<longrightarrow>
      (\<exists>j'. r = BfAborted j' \<and> start \<le> j' \<and> j' \<le> j \<and> exhausted c j' \<and>
         visited tr = ledger_range start j' @ [j'] \<and>
         (\<forall>x \<in> set (fetched tr). x \<le> j') \<and>
         last tr =
           Log ''Failed to backfill ledger %d after 3 retries - STOPPING'' [ArgWord j'])) \<and>
   (sys_bf s = BfLoop j n k \<and> \<not> sys_exited s \<and> j < cur \<and> exhausted c j \<and>
    sys_step e c start cur m s BackfillTurn = (s1, evs1) \<longrightarrow>
      sys_bf s1 = BfReturned (BfAborted j) \<and> \<not> sys_exited s1 \<and> sys_db s1 = sys_db s \<and>
      fetched evs1 = [j, j, j] \<and> sleeps evs1 = [1, 2, 3] \<and>
      (\<forall>ts s2 evs2. sys_run e c start cur m s1 ts = (s2, evs2) \<longrightarrow>
         main_loop e (sys_db s) (live_events ts) = (sys_db s2, sys_exited s2, evs2) \<and>
         sys_bf s2 = BfReturned (BfAborted j) \<and> fetched evs2 = []))"
proof (intro conjI impI)
  assume fr: "fetch_retry c i 0 = (fr, fevs)"
  note a = fetch_retry_attempts [OF fr]
  from a show "length (fetched fevs) \<le> 3" by auto
  from a show "set (fetched fevs) = {i}" by auto
  from a show "sleeps fevs \<in> {[], [1], [1, 2], [1, 2, 3]}" by blast
  from a show "length (sleeps fevs) = length (fetched fevs) - (if isl fr then 0 else 1)"
    by blast
  from a show "isl fr = exhausted c i" by blast
next
  assume h: "bfConnect c = None \<and> start \<le> j \<and> j < cur \<and> exhausted c j \<and>
    backfill_task e c db start cur m = (db', r, tr)"
  then have run: "backfill_task e c db start cur m = (db', r, tr)" by simp
  note w = backfill_task_walk [OF run]
  show "\<exists>j'. r = BfAborted j' \<and> start \<le> j' \<and> j' \<le> j \<and> exhausted c j' \<and>
         visited tr = ledger_range start j' @ [j'] \<and>
         (\<forall>x \<in> set (fetched tr). x \<le> j') \<and>
         last tr =
           Log ''Failed to backfill ledger %d after 3 retries - STOPPING'' [ArgWord j']"
  proof (cases r)
    case BfConnectFailed
    with w h show ?thesis by simp
  next
    case (BfComplete n' k')
    with w h show ?thesis by auto
  next
    case (BfAborted j')
    with w have a: "start \<le> j'" "j' < cur" "exhausted c j'"
      "\<forall>x. start \<le> x \<and> x < j' \<longrightarrow> \<not> exhausted c x"
      "visited tr = ledger_range start j' @ [j']"
      "last tr =
         Log ''Failed to backfill ledger %d after 3 retries - STOPPING'' [ArgWord j']"
      by simp_all
    from a(4) h have le: "j' \<le> j" by (meson not_le)
    have "set (fetched tr) = set (visited tr)" by (simp add: visited_def)
    with a(5) have "\<forall>x \<in> set (fetched tr). x \<le> j'"
      using ledger_range_mem [of _ start j'] by (auto intro: less_imp_le)
    with BfAborted a le show ?thesis by simp
  qed
next
  assume h: "sys_bf s = BfLoop j n k \<and> \<not> sys_exited s \<and> j < cur \<and> exhausted c j \<and>
    sys_step e c start cur m s BackfillTurn = (s1, evs1)"
  then have ab: "s1 = s\<lparr>sys_bf := BfReturned (BfAborted j)\<rparr> \<and> fetched evs1 = [j, j, j] \<and>
     sleeps evs1 = [1, 2, 3]"
    using backfill_turn_abort [of s j n k cur c e start m s1 evs1] by simp
  with h show bf: "sys_bf s1 = BfReturned (BfAborted j)" and ne: "\<not> sys_exited s1"
    and db: "sys_db s1 = sys_db s" and "fetched evs1 = [j, j, j]" and "sleeps evs1 = [1, 2, 3]"
    by simp_all
  show "\<forall>ts s2 evs2. sys_run e c start cur m s1 ts = (s2, evs2) \<longrightarrow>
         main_loop e (sys_db s) (live_events ts) = (sys_db s2, sys_exited s2, evs2) \<and>
         sys_bf s2 = BfReturned (BfAborted j) \<and> fetched evs2 = []"
  proof (intro allI impI)
    fix ts s2 evs2
    assume run: "sys_run e c start cur m s1 ts = (s2, evs2)"
    from sys_run_after_return [OF bf ne run] db
    have ml: "main_loop e (sys_db s) (live_events ts) = (sys_db s2, sys_exited s2, evs2)"
      and b2: "sys_bf s2 = BfReturned (BfAborted j)"
      by simp_all
    from main_loop_no_fetch [OF ml] ml b2
    show "main_loop e (sys_db s) (live_events ts) = (sys_db s2, sys_exited s2, evs2) \<and>
         sys_bf s2 = BfReturned (BfAborted j) \<and> fetched evs2 = []"
      by simp
  qed
qed

lemma flaky_exhausted: "exhausted flaky_client i = (i = 1003)"
  by (simp add: exhausted_def flaky_client_def)

lemma ledger_range_1001_1003: "ledger_range 1001 1003 = [1001, 1002]"
  by (simp add: ledger_range_def upt_rec [of 1001] upt_rec [of 1002] upt_rec [of 1003])

theorem backfill_retries_then_aborts_witness:
  "exhausted flaky_client 1003 \<and>
   isl (fst (fetch_retry flaky_client 1003 0 :: (err + unit ledger) \<times> toy_event list)) \<and>
   sleeps (snd (fetch_retry flaky_client 1003 0 :: (err + unit ledger) \<times> toy_event list)) =
     [1, 2, 3] \<and>
   bfConnect flaky_client = None \<and>
   fst (snd (backfill_task toy_env flaky_client toy_db0 1001 1006 5)) = BfAborted 1003 \<and>
   visited (snd (snd (backfill_task toy_env flaky_client toy_db0 1001 1006 5))) =
     [1001, 1002, 1003] \<and>
   sys_bf toy_sys = BfLoop 1003 2 0 \<and> \<not> sys_exited toy_sys \<and>
   sys_bf (fst (sys_step toy_env flaky_client 1001 1006 5 toy_sys BackfillTurn)) =
     BfReturned (BfAborted 1003) \<and>
   \<not> sys_exited (fst (sys_run toy_env flaky_client 1001 1006 5
        (fst (sys_step toy_env flaky_client 1001 1006 5 toy_sys BackfillTurn))
        [LiveTurn (LedgerChan (ledger_at 1006 []) 1), BackfillTurn])) \<and>
   toy_checkpoints (sys_db (fst (sys_run toy_env flaky_client 1001 1006 5
        (fst (sys_step toy_env flaky_client 1001 1006 5 toy_sys BackfillTurn))
        [LiveTurn (LedgerChan (ledger_at 1006 []) 1), BackfillTurn]))) =
     [new_checkpoint (ledger_at 1006 []) 1, cp_at 7]"
proof -
  let ?F = "fetch_retry flaky_client 1003 0 :: (err + unit ledger) \<times> toy_event list"
  let ?T = "backfill_task toy_env flaky_client toy_db0 1001 1006 5"
  let ?S = "sys_step toy_env flaky_client 1001 1006 5 toy_sys BackfillTurn"
  let ?ts = "[LiveTurn (LedgerChan (ledger_at 1006 []) 1), BackfillTurn]"
  let ?R = "sys_run toy_env flaky_client 1001 1006 5 (fst ?S) ?ts"
  note t = backfill_retries_then_aborts [where c = flaky_client and i = 1003 and j = 1003
      and fr = "fst ?F" and fevs = "snd ?F" and e = toy_env and db = toy_db0
      and start = 1001 and cur = 1006 and m = 5
      and db' = "fst ?T" and r = "fst (snd ?T)" and tr = "snd (snd ?T)"
      and s = toy_sys and n = 2 and k = 0 and ?s1.0 = "fst ?S" and ?evs1.0 = "snd ?S"]
  have ex: "exhausted flaky_client 1003" by (simp add: flaky_exhausted)
  have cn: "bfConnect flaky_client = None" by (simp add: flaky_client_def)
  have sy: "sys_bf toy_sys = BfLoop 1003 2 0" "\<not> sys_exited toy_sys" "sys_db toy_sys = toy_db0"
    by (simp_all add: toy_sys_def)
  have f: "?F = (fst ?F, snd ?F)" by simp
  from t [THEN conjunct1, THEN mp, OF f] ex
  have p1: "isl (fst ?F)" "sleeps (snd ?F) \<in> {[], [1], [1, 2], [1, 2, 3]}"
    "length (sleeps (snd ?F)) = length (fetched (snd ?F))" "length (fetched (snd ?F)) \<le> 3"
    "set (fetched (snd ?F)) = {1003}"
    by simp_all
  have h2: "bfConnect flaky_client = None \<and> (1001 :: u64) \<le> 1003 \<and> (1003 :: u64) < 1006 \<and>
      exhausted flaky_client 1003 \<and> ?T = (fst ?T, fst (snd ?T), snd (snd ?T))"
    using ex cn by simp
  from t [THEN conjunct2, THEN conjunct1, THEN mp, OF h2]
  obtain j' where j: "fst (snd ?T) = BfAborted j'" "exhausted flaky_client j'"
    "visited (snd (snd ?T)) = ledger_range 1001 j' @ [j']"
    by blast
  from j(2) have j3: "j' = 1003" by (simp add: flaky_exhausted)
  have h3: "sys_bf toy_sys = BfLoop 1003 2 0 \<and> \<not> sys_exited toy_sys \<and> (1003 :: u64) < 1006 \<and>
      exhausted flaky_client 1003 \<and> ?S = (fst ?S, snd ?S)"
    using ex sy by simp
  note p3 = t [THEN conjunct2, THEN conjunct2, THEN mp, OF h3]
  from p3 have s1: "sys_bf (fst ?S) = BfReturned (BfAborted 1003)" by blast
  have r: "?R = (fst ?R, snd ?R)" by simp
  from p3 r have ml: "main_loop toy_env (sys_db toy_sys) (live_events ?ts) =
      (sys_db (fst ?R), sys_exited (fst ?R), snd ?R)"
    by blast
  have "fst (main_loop toy_env toy_db0 [LedgerChan (ledger_at 1006 []) 1]) =
      \<lparr>toy_checkpoints = [new_checkpoint (ledger_at 1006 []) 1, cp_at 7], toy_pools = [],
       toy_offers = [], toy_cancelled = []\<rparr> \<and>
     \<not> fst (snd (main_loop toy_env toy_db0 [LedgerChan (ledger_at 1006 []) 1]))"
    by (simp add: toy_defs run_defs)
  with ml sy have fin: "\<not> sys_exited (fst ?R)"
    "toy_checkpoints (sys_db (fst ?R)) = [new_checkpoint (ledger_at 1006 []) 1, cp_at 7]"
    by (simp_all add: live_events_def)
  have sl: "sleeps (snd ?F) = [1, 2, 3]"
  proof -
    from p1(1) fetch_retry_attempts [OF f] show ?thesis by blast
  qed
  from ex p1(1) sl cn j j3 sy s1 fin show ?thesis
    by (simp add: ledger_range_1001_1003)
qed

section \<open>The start-up window\<close>










end
